theory Spec2Isabelle
  imports Complex_Main "HOL-Library.AList"
begin

section \<open>Numbers\<close>

text \<open>
  The program computes with Python's \<^verbatim>\<open>decimal.Decimal\<close> under the default context
  (28 significant digits, ROUND_HALF_EVEN). A finite Decimal is a triple of a sign, a
  coefficient and an exponent; \<open>Decimal(''170.00'')\<close> is \<open>(0, 17000, -2)\<close>. The triple is
  kept where the program stores and prints the number (a rule's target price). A Decimal
  that is only computed with is modelled by the rational number it denotes: comparisons
  are exact, and \<open>+\<close>, \<open>-\<close>, \<open>*\<close>, \<open>/\<close> and unary minus round their exact result to the
  context precision. The special values (NaN, Infinity) and the exponent limits of the
  context are outside the model.
\<close>

datatype decimal = Decimal (dsign: bool) (dcoeff: nat) (dexp: int)

definition pow10 :: "int \<Rightarrow> rat" where
  "pow10 e = (if 0 \<le> e then 10 ^ nat e else 1 / 10 ^ nat (- e))"

definition dec_val :: "decimal \<Rightarrow> rat" where
  "dec_val d = (if dsign d then - 1 else 1) * of_nat (dcoeff d) * pow10 (dexp d)"

definition prec :: int where
  "prec = 28"

definition round_half_even :: "rat \<Rightarrow> int" where
  "round_half_even x =
     (let f = \<lfloor>x\<rfloor>; r = x - of_int f in
      if r < 1 / 2 then f
      else if 1 / 2 < r then f + 1
      else if even f then f else f + 1)"

function ndigits :: "int \<Rightarrow> int" where
  \<comment> \<open>the number of decimal digits of a non-negative integer\<close>
  "ndigits n = (if n < 10 then 1 else 1 + ndigits (n div 10))"
  by pat_completeness auto
termination
  by (relation "measure nat") auto

declare ndigits.simps [simp del]

definition adjusted :: "rat \<Rightarrow> int" where
  \<comment> \<open>for \<open>x \<noteq> 0\<close>: the exponent \<open>e\<close> of the leading digit, \<open>10 ^ e \<le> |x| < 10 ^ (e + 1)\<close>\<close>
  "adjusted x =
     (if 1 \<le> \<bar>x\<bar> then ndigits \<lfloor>\<bar>x\<bar>\<rfloor> - 1
      else - ndigits (\<lceil>1 / \<bar>x\<bar>\<rceil> - 1))"

definition ctx_round :: "rat \<Rightarrow> rat" where
  \<comment> \<open>the context's rounding of an exact result to \<open>prec\<close> significant digits\<close>
  "ctx_round x =
     (if x = 0 then 0
      else let e = adjusted x - (prec - 1)
           in of_int (round_half_even (x / pow10 e)) * pow10 e)"

datatype error =
    ValueError string
  | KeyError string
  | InvalidOperation
  | DivisionByZero
  | IndexError
  | TypeError string
  | IllTyped string
  | OverflowError
  | ZeroDivisionError

definition dec_add :: "rat \<Rightarrow> rat \<Rightarrow> rat" where
  "dec_add a b = ctx_round (a + b)"

definition dec_sub :: "rat \<Rightarrow> rat \<Rightarrow> rat" where
  "dec_sub a b = ctx_round (a - b)"

definition dec_mul :: "rat \<Rightarrow> rat \<Rightarrow> rat" where
  "dec_mul a b = ctx_round (a * b)"

definition dec_neg :: "rat \<Rightarrow> rat" where
  "dec_neg a = ctx_round (- a)"

definition dec_div :: "rat \<Rightarrow> rat \<Rightarrow> error + rat" where
  \<comment> \<open>\<open>0 / 0\<close> signals InvalidOperation, \<open>x / 0\<close> DivisionByZero; both are trapped\<close>
  "dec_div a b =
     (if b = 0 then (if a = 0 then Inl InvalidOperation else Inl DivisionByZero)
      else Inr (ctx_round (a / b)))"

subsection \<open>Binary floating point\<close>

text \<open>
  The one place where the program leaves Decimal arithmetic is the win rate,
  \<^verbatim>\<open>Decimal(str(winning / total_completed))\<close>. Python's \<^verbatim>\<open>/\<close> on two integers is the
  correctly rounded quotient: the binary64 number nearest to the exact quotient, ties to
  the even significand (53 bits). \<^verbatim>\<open>str\<close> of a float is its \<^verbatim>\<open>repr\<close>: the decimal
  numeral with the fewest significant digits that reads back as the same float, and among
  the numerals of that length the one nearest to the float (a tie goes to the even last
  digit); 17 digits always suffice. \<^verbatim>\<open>Decimal\<close> of that string is exact. A float is
  modelled by the rational number it denotes; the exponent range of binary64 is outside
  the model (a quotient of two counts is 0 or at least 1 over the number of trades).
\<close>

definition pow2 :: "int \<Rightarrow> rat" where
  "pow2 e = (if 0 \<le> e then 2 ^ nat e else 1 / 2 ^ nat (- e))"

function nbits :: "int \<Rightarrow> int" where
  \<comment> \<open>the number of binary digits of a non-negative integer\<close>
  "nbits n = (if n < 2 then 1 else 1 + nbits (n div 2))"
  by pat_completeness auto
termination
  by (relation "measure nat") auto

declare nbits.simps [simp del]

definition binary_exponent :: "rat \<Rightarrow> int" where
  \<comment> \<open>for \<open>x \<noteq> 0\<close>: the exponent \<open>e\<close> of the leading bit, \<open>2 ^ e \<le> |x| < 2 ^ (e + 1)\<close>\<close>
  "binary_exponent x =
     (if 1 \<le> \<bar>x\<bar> then nbits \<lfloor>\<bar>x\<bar>\<rfloor> - 1
      else - nbits (\<lceil>1 / \<bar>x\<bar>\<rceil> - 1))"

definition float_round :: "rat \<Rightarrow> rat" where
  \<comment> \<open>the binary64 number nearest to \<open>x\<close>, ties to even\<close>
  "float_round x =
     (if x = 0 then 0
      else let e = binary_exponent x - 52
           in of_int (round_half_even (x / pow2 e)) * pow2 e)"

definition int_true_div :: "int \<Rightarrow> int \<Rightarrow> error + rat" where
  \<comment> \<open>\<^verbatim>\<open>a / b\<close> on two integers\<close>
  "int_true_div a b =
     (if b = 0 then Inl ZeroDivisionError else Inr (float_round (of_int a / of_int b)))"

definition pick_digits :: "rat \<Rightarrow> nat \<Rightarrow> rat option" where
  \<comment> \<open>the numeral of \<open>n\<close> significant digits that \<^verbatim>\<open>repr\<close> prints for the float \<open>x > 0\<close>, if
      one of the two numerals of that length around \<open>x\<close> reads back as \<open>x\<close>\<close>
  "pick_digits x n =
     (let e = adjusted x - (int n - 1);
          f = \<lfloor>x / pow10 e\<rfloor>;
          lo = of_int f * pow10 e;
          hi = of_int (f + 1) * pow10 e;
          lo_ok = (float_round lo = x);
          hi_ok = (float_round hi = x)
      in
      if lo_ok \<and> hi_ok then
        (if x - lo < hi - x then Some lo
         else if hi - x < x - lo then Some hi
         else if even f then Some lo else Some hi)
      else if lo_ok then Some lo
      else if hi_ok then Some hi
      else None)"

fun repr_search :: "rat \<Rightarrow> nat \<Rightarrow> nat \<Rightarrow> rat" where
  \<comment> \<open>tries \<open>n\<close>, \<open>n + 1\<close>, ... digits, \<open>k\<close> lengths in all; a float is found within 17 digits,
      and a number that is not is left as it is\<close>
  "repr_search x n 0 = x"
| "repr_search x n (Suc k) =
     (case pick_digits x n of
        Some r \<Rightarrow> r
      | None \<Rightarrow> repr_search x (Suc n) k)"

definition Decimal_of_float_str :: "rat \<Rightarrow> rat" where
  \<comment> \<open>\<^verbatim>\<open>Decimal(str(x))\<close> for a float \<open>x\<close>\<close>
  "Decimal_of_float_str x =
     (if x = 0 then 0
      else if x < 0 then - repr_search (- x) 1 17
      else repr_search x 1 17)"

section \<open>Rules (trader/rules/models.py)\<close>

datatype RuleAction = BUY | SELL

datatype RuleCondition = BELOW | ABOVE

record Rule =
  symbol :: string
  action :: RuleAction
  condition :: RuleCondition
  target_price :: decimal
  quantity :: int
  id' :: string
  enabled :: bool
  triggered :: bool
  description :: "string option"

definition check :: "Rule \<Rightarrow> decimal \<Rightarrow> bool" where
  "check self current_price =
     (if \<not> enabled self \<or> triggered self then False
      else if condition self = BELOW then dec_val current_price \<le> dec_val (target_price self)
      else dec_val current_price \<ge> dec_val (target_price self))"


subsection \<open>The text of numbers\<close>

text \<open>
  Strings are lists of bytes; the model covers ASCII text. \<open>str_nat\<close> is Python's \<^verbatim>\<open>str\<close>
  on a non-negative integer and \<open>int_of_digits\<close> is \<^verbatim>\<open>int\<close> on a string of digits.
\<close>

definition is_digit :: "char \<Rightarrow> bool" where
  "is_digit c = (48 \<le> (of_char c :: nat) \<and> (of_char c :: nat) \<le> 57)"

definition digit_char :: "nat \<Rightarrow> char" where
  "digit_char d = char_of (48 + d)"

definition digit_val :: "char \<Rightarrow> nat" where
  "digit_val c = of_char c - 48"

function str_nat :: "nat \<Rightarrow> string" where
  "str_nat n = (if n < 10 then [digit_char n] else str_nat (n div 10) @ [digit_char (n mod 10)])"
  by pat_completeness auto
termination
  by (relation "measure id") auto

declare str_nat.simps [simp del]

definition int_of_digits :: "string \<Rightarrow> nat" where
  "int_of_digits ds = foldl (\<lambda>acc c. 10 * acc + digit_val c) 0 ds"

definition str_int :: "int \<Rightarrow> string" where
  "str_int i = (if i < 0 then CHR ''-'' # str_nat (nat (- i)) else str_nat (nat i))"

definition fmt_plus_d :: "int \<Rightarrow> string" where
  \<comment> \<open>\<^verbatim>\<open>"%+d" % i\<close>\<close>
  "fmt_plus_d i = (if i < 0 then CHR ''-'' else CHR ''+'') # str_nat (nat \<bar>i\<bar>)"

definition Decimal_str :: "decimal \<Rightarrow> string" where
  \<comment> \<open>\<^verbatim>\<open>Decimal.__str__\<close>: the scientific string of the decimal arithmetic specification\<close>
  "Decimal_str d =
     (let sign = (if dsign d then [CHR ''-''] else []);
          int_s = str_nat (dcoeff d);
          leftdigits = dexp d + int (length int_s);
          dotplace = (if dexp d \<le> 0 \<and> leftdigits > - 6 then leftdigits else 1);
          intpart =
            (if dotplace \<le> 0 then [CHR ''0'']
             else if dotplace \<ge> int (length int_s)
             then int_s @ replicate (nat (dotplace - int (length int_s))) (CHR ''0'')
             else take (nat dotplace) int_s);
          fracpart =
            (if dotplace \<le> 0 then CHR ''.'' # replicate (nat (- dotplace)) (CHR ''0'') @ int_s
             else if dotplace \<ge> int (length int_s) then []
             else CHR ''.'' # drop (nat dotplace) int_s);
          exp = (if leftdigits = dotplace then []
                 else CHR ''E'' # fmt_plus_d (leftdigits - dotplace))
      in sign @ intpart @ fracpart @ exp)"

definition is_space :: "char \<Rightarrow> bool" where
  \<comment> \<open>the ASCII characters \<^verbatim>\<open>str.strip\<close> removes\<close>
  "is_space c =
     (let n = (of_char c :: nat) in (9 \<le> n \<and> n \<le> 13) \<or> (28 \<le> n \<and> n \<le> 32))"

definition strip :: "string \<Rightarrow> string" where
  "strip s = rev (dropWhile is_space (rev (dropWhile is_space s)))"

definition remove_underscores :: "string \<Rightarrow> string" where
  \<comment> \<open>\<^verbatim>\<open>.replace("_", "")\<close>\<close>
  "remove_underscores s = filter (\<lambda>c. c \<noteq> CHR ''_'') s"

definition lower_char :: "char \<Rightarrow> char" where
  "lower_char c =
     (let n = (of_char c :: nat) in if 65 \<le> n \<and> n \<le> 90 then char_of (n + 32) else c)"

definition upper_char :: "char \<Rightarrow> char" where
  "upper_char c =
     (let n = (of_char c :: nat) in if 97 \<le> n \<and> n \<le> 122 then char_of (n - 32) else c)"

definition upper :: "string \<Rightarrow> string" where
  \<comment> \<open>\<^verbatim>\<open>str.upper\<close> on ASCII text\<close>
  "upper s = map upper_char s"

definition split_sign :: "string \<Rightarrow> bool \<times> string" where
  \<comment> \<open>an optional sign \<^verbatim>\<open>[-+]\<close> and the rest\<close>
  "split_sign s =
     (case s of
        [] \<Rightarrow> (False, [])
      | c # rest \<Rightarrow>
          if c = CHR ''-'' then (True, rest)
          else if c = CHR ''+'' then (False, rest)
          else (False, s))"

definition parse_exponent :: "string \<Rightarrow> int option" where
  \<comment> \<open>\<^verbatim>\<open>[-+]?\d+\<close> up to the end of the string, read by \<^verbatim>\<open>int\<close>\<close>
  "parse_exponent s =
     (case split_sign s of (neg, ds) \<Rightarrow>
        if ds \<noteq> [] \<and> list_all is_digit ds
        then Some (if neg then - int (int_of_digits ds) else int (int_of_digits ds))
        else None)"

definition is_special :: "string \<Rightarrow> bool" where
  \<comment> \<open>\<^verbatim>\<open>Inf(inity)?\<close> or \<^verbatim>\<open>s?NaN\d*\<close>, ignoring case\<close>
  "is_special s =
     (let l = map lower_char s;
          l' = (case l of [] \<Rightarrow> [] | c # r \<Rightarrow> if c = CHR ''s'' then r else l)
      in l = ''inf'' \<or> l = ''infinity'' \<or> (take 3 l' = ''nan'' \<and> list_all is_digit (drop 3 l')))"

definition Decimal_of_str :: "string \<Rightarrow> error + decimal" where
  \<comment> \<open>\<^verbatim>\<open>Decimal(value)\<close> for a string: the constructor's regular expression, read left to
      right. A string that denotes NaN or an infinity is outside the model.\<close>
  "Decimal_of_str v =
     (case split_sign (remove_underscores (strip v)) of (neg, s1) \<Rightarrow>
      let intpart = takeWhile is_digit s1;
          s2 = dropWhile is_digit s1;
          has_frac = (s2 \<noteq> [] \<and> hd s2 = CHR ''.'');
          fracpart = (if has_frac then takeWhile is_digit (tl s2) else []);
          s3 = (if has_frac then dropWhile is_digit (tl s2) else s2);
          exp = (case s3 of
                   [] \<Rightarrow> Some 0
                 | c # rest \<Rightarrow> if lower_char c = CHR ''e'' then parse_exponent rest else None)
      in
      if intpart \<noteq> [] \<or> fracpart \<noteq> [] then
        (case exp of
           Some e \<Rightarrow> Inr (Decimal neg (int_of_digits (intpart @ fracpart)) (e - int (length fracpart)))
         | None \<Rightarrow> Inl InvalidOperation)
      else if is_special s1 then Inl (IllTyped ''Decimal special value'')
      else Inl InvalidOperation)"

definition dec_char :: "char \<Rightarrow> bool" where
  \<comment> \<open>the characters the text of a decimal is made of\<close>
  "dec_char c \<longleftrightarrow>
     is_digit c \<or> c = CHR ''-'' \<or> c = CHR ''+'' \<or> c = CHR ''.'' \<or> c = CHR ''E''"

subsection \<open>Construction and serialisation of rules\<close>

definition Rule_init ::
  "string \<Rightarrow> RuleAction \<Rightarrow> RuleCondition \<Rightarrow> decimal \<Rightarrow> int \<Rightarrow> string \<Rightarrow> bool \<Rightarrow> bool
     \<Rightarrow> string option \<Rightarrow> error + Rule" where
  \<comment> \<open>the dataclass constructor followed by \<^verbatim>\<open>__post_init__\<close>; where the caller gives no
      id, the id argument is the fresh \<^verbatim>\<open>str(uuid.uuid4())[:8]\<close>\<close>
  "Rule_init sy ac co tp qty ident en tr de =
     (if qty \<le> 0 then Inl (ValueError ''Quantity must be positive'')
      else if dec_val tp \<le> 0 then Inl (ValueError ''Target price must be positive'')
      else Inr \<lparr>symbol = upper sy, action = ac, condition = co, target_price = tp,
                quantity = qty, id' = ident, enabled = en, triggered = tr, description = de\<rparr>)"

text \<open>
  The values a persisted record holds. A record holding a value of another type than the
  rule's field (Python does not check the annotations) is outside the model; \<open>from_dict\<close>
  reports it as \<open>IllTyped\<close>.
\<close>

datatype pyval = VStr string | VInt int | VBool bool | VNone

definition action_value :: "RuleAction \<Rightarrow> string" where
  "action_value a = (case a of BUY \<Rightarrow> ''buy'' | SELL \<Rightarrow> ''sell'')"

definition condition_value :: "RuleCondition \<Rightarrow> string" where
  "condition_value c = (case c of BELOW \<Rightarrow> ''below'' | ABOVE \<Rightarrow> ''above'')"

definition RuleAction_of :: "pyval \<Rightarrow> error + RuleAction" where
  \<comment> \<open>\<^verbatim>\<open>RuleAction(value)\<close>: lookup by value\<close>
  "RuleAction_of v =
     (if v = VStr ''buy'' then Inr BUY
      else if v = VStr ''sell'' then Inr SELL
      else Inl (ValueError ''not a valid RuleAction''))"

definition RuleCondition_of :: "pyval \<Rightarrow> error + RuleCondition" where
  "RuleCondition_of v =
     (if v = VStr ''below'' then Inr BELOW
      else if v = VStr ''above'' then Inr ABOVE
      else Inl (ValueError ''not a valid RuleCondition''))"

definition str_of :: "pyval \<Rightarrow> string" where
  \<comment> \<open>\<^verbatim>\<open>str(value)\<close>\<close>
  "str_of v =
     (case v of
        VStr s \<Rightarrow> s
      | VInt i \<Rightarrow> str_int i
      | VBool b \<Rightarrow> (if b then ''True'' else ''False'')
      | VNone \<Rightarrow> ''None'')"

definition int_of :: "pyval \<Rightarrow> error + int" where
  \<comment> \<open>\<^verbatim>\<open>int(value)\<close>; parsing a string is outside the model\<close>
  "int_of v =
     (case v of
        VInt i \<Rightarrow> Inr i
      | VBool b \<Rightarrow> Inr (if b then 1 else 0)
      | VStr s \<Rightarrow> Inl (IllTyped ''quantity'')
      | VNone \<Rightarrow> Inl (TypeError ''int() argument''))"

definition to_dict :: "Rule \<Rightarrow> (string \<rightharpoonup> pyval)" where
  "to_dict self =
     [''id'' \<mapsto> VStr (id' self),
      ''symbol'' \<mapsto> VStr (symbol self),
      ''action'' \<mapsto> VStr (action_value (action self)),
      ''condition'' \<mapsto> VStr (condition_value (condition self)),
      ''target_price'' \<mapsto> VStr (Decimal_str (target_price self)),
      ''quantity'' \<mapsto> VInt (quantity self),
      ''enabled'' \<mapsto> VBool (enabled self),
      ''triggered'' \<mapsto> VBool (triggered self),
      ''description'' \<mapsto> (case description self of None \<Rightarrow> VNone | Some s \<Rightarrow> VStr s)]"

definition get_bool :: "(string \<rightharpoonup> pyval) \<Rightarrow> string \<Rightarrow> bool \<Rightarrow> error + bool" where
  \<comment> \<open>\<^verbatim>\<open>data.get(key, default)\<close> for a boolean field\<close>
  "get_bool data key dflt =
     (case data key of
        None \<Rightarrow> Inr dflt
      | Some (VBool b) \<Rightarrow> Inr b
      | Some _ \<Rightarrow> Inl (IllTyped key))"

definition from_dict :: "string \<Rightarrow> (string \<rightharpoonup> pyval) \<Rightarrow> error + Rule" where
  \<comment> \<open>the first argument is the fresh id \<^verbatim>\<open>str(uuid.uuid4())[:8]\<close>, used when the record
      has no id; the arguments are evaluated in the order of the call\<close>
  "from_dict fresh data =
     (case (case data ''id'' of
              None \<Rightarrow> Inr fresh | Some (VStr s) \<Rightarrow> Inr s | Some _ \<Rightarrow> Inl (IllTyped ''id'')) of
        Inl e \<Rightarrow> Inl e
      | Inr ident \<Rightarrow>
     (case (case data ''symbol'' of
              None \<Rightarrow> Inl (KeyError ''symbol'') | Some (VStr s) \<Rightarrow> Inr s
            | Some _ \<Rightarrow> Inl (IllTyped ''symbol'')) of
        Inl e \<Rightarrow> Inl e
      | Inr sy \<Rightarrow>
     (case (case data ''action'' of
              None \<Rightarrow> Inl (KeyError ''action'') | Some v \<Rightarrow> RuleAction_of v) of
        Inl e \<Rightarrow> Inl e
      | Inr ac \<Rightarrow>
     (case (case data ''condition'' of
              None \<Rightarrow> Inl (KeyError ''condition'') | Some v \<Rightarrow> RuleCondition_of v) of
        Inl e \<Rightarrow> Inl e
      | Inr co \<Rightarrow>
     (case (case data ''target_price'' of
              None \<Rightarrow> Inl (KeyError ''target_price'') | Some v \<Rightarrow> Decimal_of_str (str_of v)) of
        Inl e \<Rightarrow> Inl e
      | Inr tp \<Rightarrow>
     (case (case data ''quantity'' of
              None \<Rightarrow> Inl (KeyError ''quantity'') | Some v \<Rightarrow> int_of v) of
        Inl e \<Rightarrow> Inl e
      | Inr qty \<Rightarrow>
     (case get_bool data ''enabled'' True of
        Inl e \<Rightarrow> Inl e
      | Inr en \<Rightarrow>
     (case get_bool data ''triggered'' False of
        Inl e \<Rightarrow> Inl e
      | Inr tr \<Rightarrow>
     (case (case data ''description'' of
              None \<Rightarrow> Inr None | Some VNone \<Rightarrow> Inr None | Some (VStr s) \<Rightarrow> Inr (Some s)
            | Some _ \<Rightarrow> Inl (IllTyped ''description'')) of
        Inl e \<Rightarrow> Inl e
      | Inr de \<Rightarrow> Rule_init sy ac co tp qty ident en tr de)))))))))"

definition valid_rule :: "Rule \<Rightarrow> bool" where
  \<comment> \<open>the invariants of a rule: what \<^verbatim>\<open>__post_init__\<close> establishes\<close>
  "valid_rule r \<longleftrightarrow>
     0 < quantity r \<and> 0 < dec_val (target_price r) \<and> symbol r = upper (symbol r)"


section \<open>Safety controls (trader/core/safety.py)\<close>

record SafetyLimits =
  max_position_size :: int
  max_position_value :: rat
  max_daily_loss :: rat
  max_daily_trades :: int
  max_order_value :: rat

definition default_SafetyLimits :: SafetyLimits where
  "default_SafetyLimits =
     \<lparr>max_position_size = 100, max_position_value = 10000, max_daily_loss = 500,
      max_daily_trades = 50, max_order_value = 5000\<rparr>"

text \<open>
  The broker and the ledger are external collaborators (\<^verbatim>\<open>trader.api.broker\<close>,
  \<^verbatim>\<open>trader.data.ledger\<close>). A safety check only reads them, so each is a parameter: the
  answers its read operations give at the moment of the check.
\<close>

record Position =
  market_value :: rat

record Account =
  buying_power :: rat

record Broker =
  get_position :: "string \<Rightarrow> Position option"
  get_account :: Account

record TradeLedger =
  get_total_today_pnl :: rat
  get_trade_count_today :: int

text \<open>The calls a check makes on its collaborators, in the order it makes them.\<close>

datatype ext_call =
    LedgerGetTotalTodayPnl
  | LedgerGetTradeCountToday
  | BrokerGetPosition string
  | BrokerGetAccount

text \<open>
  The reason of a verdict. Each constructor stands for one message of the source and carries
  the values the message interpolates:
  \<^item> \<open>KillSwitchActive\<close>: \<^verbatim>\<open>Kill switch is active\<close>
  \<^item> \<open>DailyLossLimit pnl\<close>: \<^verbatim>\<open>Daily loss limit reached: ${daily_pnl:.2f}\<close>
  \<^item> \<open>DailyTradeLimit n\<close>: \<^verbatim>\<open>Daily trade limit reached: {trade_count} trades\<close>
  \<^item> \<open>OrderValueExceeds v lim\<close>: \<^verbatim>\<open>Order value ${order_value:.2f} exceeds limit ${max_order_value}\<close>
  \<^item> \<open>QuantityExceeds q lim\<close>: \<^verbatim>\<open>Quantity {quantity} exceeds position size limit {max_position_size}\<close>
  \<^item> \<open>PositionValueExceeds v lim\<close>: \<^verbatim>\<open>Position value ${new_value:.2f} would exceed limit ${max_position_value}\<close>
  \<^item> \<open>InsufficientBuyingPower v bp\<close>: \<^verbatim>\<open>Insufficient buying power: need ${order_value:.2f}, have ${buying_power:.2f}\<close>
  \<^item> \<open>OK\<close>: \<^verbatim>\<open>OK\<close>
\<close>

datatype reason =
    KillSwitchActive
  | DailyLossLimit rat
  | DailyTradeLimit int
  | OrderValueExceeds rat rat
  | QuantityExceeds int int
  | PositionValueExceeds rat rat
  | InsufficientBuyingPower rat rat
  | OK

record SafetyCheck =
  limits :: SafetyLimits
  killed :: bool

definition SafetyCheck_init :: "SafetyLimits option \<Rightarrow> SafetyCheck" where
  "SafetyCheck_init lims =
     \<lparr>limits = (case lims of None \<Rightarrow> default_SafetyLimits | Some l \<Rightarrow> l), killed = False\<rparr>"

definition kill :: "SafetyCheck \<Rightarrow> SafetyCheck" where
  "kill self = self\<lparr>killed := True\<rparr>"

definition reset :: "SafetyCheck \<Rightarrow> SafetyCheck" where
  "reset self = self\<lparr>killed := False\<rparr>"

definition is_killed :: "SafetyCheck \<Rightarrow> bool" where
  "is_killed self = killed self"

definition check_can_trade :: "SafetyCheck \<Rightarrow> TradeLedger \<Rightarrow> (bool \<times> reason) \<times> ext_call list" where
  "check_can_trade self ledger =
     (if killed self then ((False, KillSwitchActive), [])
      else
        let daily_pnl = get_total_today_pnl ledger in
        if daily_pnl < dec_neg (max_daily_loss (limits self))
        then ((False, DailyLossLimit daily_pnl), [LedgerGetTotalTodayPnl])
        else
          let trade_count = get_trade_count_today ledger in
          if trade_count \<ge> max_daily_trades (limits self)
          then ((False, DailyTradeLimit trade_count),
                [LedgerGetTotalTodayPnl, LedgerGetTradeCountToday])
          else ((True, OK), [LedgerGetTotalTodayPnl, LedgerGetTradeCountToday]))"

definition order_value :: "int \<Rightarrow> rat \<Rightarrow> rat" where
  \<comment> \<open>\<^verbatim>\<open>Decimal(str(quantity)) * price\<close>\<close>
  "order_value qty px = dec_mul (of_int qty) px"

definition current_value :: "Broker \<Rightarrow> string \<Rightarrow> rat" where
  "current_value broker symb =
     (case get_position broker symb of None \<Rightarrow> 0 | Some current_position \<Rightarrow> market_value current_position)"

definition check_order ::
  "SafetyCheck \<Rightarrow> Broker \<Rightarrow> TradeLedger \<Rightarrow> string \<Rightarrow> int \<Rightarrow> rat \<Rightarrow> bool
     \<Rightarrow> (bool \<times> reason) \<times> ext_call list" where
  "check_order self broker ledger symb qty px is_buy =
     (case check_can_trade self ledger of ((can_trade, why), calls) \<Rightarrow>
      if \<not> can_trade then ((False, why), calls)
      else if order_value qty px > max_order_value (limits self)
      then ((False, OrderValueExceeds (order_value qty px) (max_order_value (limits self))), calls)
      else if qty > max_position_size (limits self)
      then ((False, QuantityExceeds qty (max_position_size (limits self))), calls)
      else if is_buy then
        (let new_value = dec_add (current_value broker symb) (order_value qty px) in
         if new_value > max_position_value (limits self)
         then ((False, PositionValueExceeds new_value (max_position_value (limits self))),
               calls @ [BrokerGetPosition symb])
         else
           let account = get_account broker in
           if order_value qty px > buying_power account
           then ((False, InsufficientBuyingPower (order_value qty px) (buying_power account)),
                 calls @ [BrokerGetPosition symb, BrokerGetAccount])
           else ((True, OK), calls @ [BrokerGetPosition symb, BrokerGetAccount]))
      else ((True, OK), calls))"

text \<open>
  The public operations of a safety checker, as a caller may issue them, and what each does
  to the checker's own state. Only \<open>kill\<close> and \<open>reset\<close> assign to it.
\<close>

datatype safety_call =
    Kill
  | Reset
  | CheckCanTrade TradeLedger
  | CheckOrder Broker TradeLedger string int rat bool
  | GetStatus TradeLedger

fun safety_step :: "SafetyCheck \<Rightarrow> safety_call \<Rightarrow> SafetyCheck" where
  "safety_step self Kill = kill self"
| "safety_step self Reset = reset self"
| "safety_step self (CheckCanTrade ledger) = self"
| "safety_step self (CheckOrder broker ledger symb qty px is_buy) = self"
| "safety_step self (GetStatus ledger) = self"

definition is_reset :: "safety_call \<Rightarrow> bool" where
  "is_reset c = (case c of Reset \<Rightarrow> True | _ \<Rightarrow> False)"

definition is_kill :: "safety_call \<Rightarrow> bool" where
  "is_kill c = (case c of Kill \<Rightarrow> True | _ \<Rightarrow> False)"

section \<open>Backtesting (trader/core/backtest.py)\<close>

text \<open>
  A \<^verbatim>\<open>datetime\<close> is a point in time, measured in days on Python's proleptic ordinal scale:
  day 1 is 0001-01-01, and the last day a \<^verbatim>\<open>datetime\<close> can hold is 9999-12-31, day 3652059.
  \<^verbatim>\<open>timedelta(days=n)\<close> is \<open>n\<close> days and exists for \<open>|n| \<le> 999999999\<close>; a sum or difference
  that leaves the range of \<^verbatim>\<open>datetime\<close> raises \<^verbatim>\<open>OverflowError\<close>, as does a \<^verbatim>\<open>timedelta\<close>
  that is too large.
\<close>

type_synonym datetime = rat

definition datetime_min :: datetime where
  "datetime_min = 1"

definition datetime_end :: datetime where
  \<comment> \<open>the first moment after \<^verbatim>\<open>datetime.max\<close>\<close>
  "datetime_end = 3652060"

definition timedelta :: "int \<Rightarrow> error + rat" where
  "timedelta days = (if \<bar>days\<bar> > 999999999 then Inl OverflowError else Inr (of_int days))"

definition datetime_add :: "datetime \<Rightarrow> rat \<Rightarrow> error + datetime" where
  "datetime_add t delta =
     (let r = t + delta in
      if datetime_min \<le> r \<and> r < datetime_end then Inr r else Inl OverflowError)"

definition datetime_sub :: "datetime \<Rightarrow> rat \<Rightarrow> error + datetime" where
  "datetime_sub t delta = datetime_add t (- delta)"

record BacktestTrade =
  timestamp :: datetime
  symbol' :: string
  side :: string
  quantity' :: int
  price :: rat
  rule_id :: string

record BacktestResult =
  start_date :: datetime
  end_date :: datetime
  initial_capital' :: rat
  final_capital :: rat
  total_return :: rat
  total_return_pct :: rat
  total_trades :: int
  winning_trades :: int
  losing_trades :: int
  win_rate :: rat
  max_drawdown :: rat
  trades :: "BacktestTrade list"

record Backtester =
  initial_capital :: rat

text \<open>
  What a run takes from outside the program is a parameter of the model: the two readings
  of the clock and the random draws. \<open>uniform_offset env s\<close> is
  \<^verbatim>\<open>Decimal(str(random.uniform(-0.1, 0.1)))\<close> as drawn for symbol \<open>s\<close>, and
  \<open>gauss_change env day s\<close> is \<^verbatim>\<open>Decimal(str(random.gauss(0, float(volatility))))\<close> as
  drawn on day \<open>day\<close> for symbol \<open>s\<close>; the draws are independent, so the order in which the
  program takes them from the generator does not matter.
\<close>

record sim_env =
  now_start :: datetime
  now_end :: datetime
  uniform_offset :: "string \<Rightarrow> rat"
  gauss_change :: "nat \<Rightarrow> string \<Rightarrow> rat"

text \<open>The locals \<^verbatim>\<open>cash\<close>, \<^verbatim>\<open>positions\<close> (a dict, in insertion order) and \<^verbatim>\<open>trades\<close>.\<close>

record sim_state =
  st_cash :: rat
  st_positions :: "(string \<times> int \<times> rat) list"
  st_trades :: "BacktestTrade list"

fun init_prices :: "sim_env \<Rightarrow> (string \<rightharpoonup> rat) \<Rightarrow> Rule list \<Rightarrow> (string \<rightharpoonup> rat)" where
  "init_prices env prices [] = prices"
| "init_prices env prices (rule # rest) =
     (if prices (symbol rule) = None
      then init_prices env
             (prices(symbol rule \<mapsto>
                dec_mul (dec_val (target_price rule)) (dec_add 1 (uniform_offset env (symbol rule)))))
             rest
      else init_prices env prices rest)"

fun update_prices ::
  "sim_env \<Rightarrow> nat \<Rightarrow> (string \<rightharpoonup> rat) \<Rightarrow> string list \<Rightarrow> error + (string \<rightharpoonup> rat)" where
  "update_prices env day prices [] = Inr prices"
| "update_prices env day prices (s # rest) =
     (case prices s of
        None \<Rightarrow> Inl (KeyError s)
      | Some p \<Rightarrow>
          update_prices env day
            (prices(s \<mapsto> max (dec_mul p (dec_add 1 (gauss_change env day s))) 1)) rest)"

definition rule_triggers :: "Rule \<Rightarrow> rat \<Rightarrow> bool" where
  \<comment> \<open>the local \<^verbatim>\<open>triggered\<close> of the rule loop\<close>
  "rule_triggers rule current_price =
     (if condition rule = BELOW \<and> current_price \<le> dec_val (target_price rule) then True
      else if condition rule = ABOVE \<and> current_price \<ge> dec_val (target_price rule) then True
      else False)"

definition buy_fill :: "datetime \<Rightarrow> sim_state \<Rightarrow> Rule \<Rightarrow> rat \<Rightarrow> error + sim_state" where
  "buy_fill current_date st rule current_price =
     (let cost = dec_mul current_price (of_int (quantity rule)) in
      if st_cash st \<ge> cost then
        (case
           (case map_of (st_positions st) (symbol rule) of
              Some (old_qty, old_price) \<Rightarrow>
                (let new_qty = old_qty + quantity rule in
                 case dec_div
                        (dec_add (dec_mul old_price (of_int old_qty))
                                 (dec_mul current_price (of_int (quantity rule))))
                        (of_int new_qty) of
                   Inl e \<Rightarrow> Inl e
                 | Inr new_avg \<Rightarrow>
                     Inr (AList.update (symbol rule) (new_qty, new_avg) (st_positions st)))
            | None \<Rightarrow>
                Inr (AList.update (symbol rule) (quantity rule, current_price) (st_positions st)))
         of
           Inl e \<Rightarrow> Inl e
         | Inr positions \<Rightarrow>
             Inr \<lparr>st_cash = dec_sub (st_cash st) cost,
                  st_positions = positions,
                  st_trades = st_trades st @
                    [\<lparr>timestamp = current_date, symbol' = symbol rule, side = ''buy'',
                      quantity' = quantity rule, price = current_price, rule_id = id' rule\<rparr>]\<rparr>)
      else Inr st)"

definition sell_fill :: "datetime \<Rightarrow> sim_state \<Rightarrow> Rule \<Rightarrow> rat \<Rightarrow> error + sim_state" where
  "sell_fill current_date st rule current_price =
     (case map_of (st_positions st) (symbol rule) of
        Some (qty, avg_price) \<Rightarrow>
          (let sell_qty = min qty (quantity rule) in
           Inr \<lparr>st_cash = dec_add (st_cash st) (dec_mul current_price (of_int sell_qty)),
                st_positions =
                  (if sell_qty \<ge> qty then AList.delete (symbol rule) (st_positions st)
                   else AList.update (symbol rule) (qty - sell_qty, avg_price) (st_positions st)),
                st_trades = st_trades st @
                  [\<lparr>timestamp = current_date, symbol' = symbol rule, side = ''sell'',
                    quantity' = sell_qty, price = current_price, rule_id = id' rule\<rparr>]\<rparr>)
      | None \<Rightarrow> Inr st)"

text \<open>
  One pass of the rule loop's body. The rule objects belong to the caller and are passed by
  reference, so the body returns the rule as it leaves it, beside the new locals.
  \<open>fire_rule\<close> is the block under \<^verbatim>\<open>if triggered:\<close>.
\<close>

definition fire_rule ::
  "datetime \<Rightarrow> sim_state \<Rightarrow> Rule \<Rightarrow> rat \<Rightarrow> error + (sim_state \<times> Rule)" where
  "fire_rule current_date st rule current_price =
     (case action rule of
        BUY \<Rightarrow>
          (case buy_fill current_date st rule current_price of
             Inl e \<Rightarrow> Inl e | Inr st' \<Rightarrow> Inr (st', rule))
      | SELL \<Rightarrow>
          (case sell_fill current_date st rule current_price of
             Inl e \<Rightarrow> Inl e | Inr st' \<Rightarrow> Inr (st', rule)))"

definition rule_step ::
  "datetime \<Rightarrow> (string \<rightharpoonup> rat) \<Rightarrow> sim_state \<Rightarrow> Rule \<Rightarrow> error + (sim_state \<times> Rule)" where
  "rule_step current_date prices st rule =
     (if \<not> enabled rule then Inr (st, rule)
      else
        case prices (symbol rule) of
          None \<Rightarrow> Inl (KeyError (symbol rule))
        | Some current_price \<Rightarrow>
            if rule_triggers rule current_price
            then fire_rule current_date st rule current_price
            else Inr (st, rule))"

fun check_rules ::
  "datetime \<Rightarrow> (string \<rightharpoonup> rat) \<Rightarrow> sim_state \<Rightarrow> Rule list \<Rightarrow> error + (sim_state \<times> Rule list)" where
  "check_rules current_date prices st [] = Inr (st, [])"
| "check_rules current_date prices st (rule # rest) =
     (case rule_step current_date prices st rule of
        Inl e \<Rightarrow> Inl e
      | Inr (st', rule') \<Rightarrow>
          (case check_rules current_date prices st' rest of
             Inl e \<Rightarrow> Inl e
           | Inr (st'', rest') \<Rightarrow> Inr (st'', rule' # rest')))"

fun positions_value ::
  "(string \<rightharpoonup> rat) \<Rightarrow> rat \<Rightarrow> (string \<times> int \<times> rat) list \<Rightarrow> error + rat" where
  \<comment> \<open>Python's \<^verbatim>\<open>sum\<close>, which starts from 0 and adds from the left\<close>
  "positions_value prices acc [] = Inr acc"
| "positions_value prices acc ((s, q, avg) # rest) =
     (case prices s of
        None \<Rightarrow> Inl (KeyError s)
      | Some p \<Rightarrow> positions_value prices (dec_add acc (dec_mul p (of_int q))) rest)"

text \<open>The state of the day loop: prices, locals, equity curve and the caller's rules.\<close>

record run_state =
  rs_prices :: "string \<rightharpoonup> rat"
  rs_sim :: sim_state
  rs_equity_curve :: "rat list"
  rs_rules :: "Rule list"

definition day_step ::
  "sim_env \<Rightarrow> datetime \<Rightarrow> string list \<Rightarrow> run_state \<Rightarrow> nat \<Rightarrow> error + run_state" where
  "day_step env start_d symbols rs day =
     (case timedelta (int day) of
        Inl e \<Rightarrow> Inl e
      | Inr delta \<Rightarrow>
     (case datetime_add start_d delta of
        Inl e \<Rightarrow> Inl e
      | Inr current_date \<Rightarrow>
     (case update_prices env day (rs_prices rs) symbols of
        Inl e \<Rightarrow> Inl e
      | Inr prices \<Rightarrow>
          (case check_rules current_date prices (rs_sim rs) (rs_rules rs) of
             Inl e \<Rightarrow> Inl e
           | Inr (st, rules) \<Rightarrow>
               (case positions_value prices 0 (st_positions st) of
                  Inl e \<Rightarrow> Inl e
                | Inr pv \<Rightarrow>
                    Inr \<lparr>rs_prices = prices, rs_sim = st,
                         rs_equity_curve = rs_equity_curve rs @ [dec_add (st_cash st) pv],
                         rs_rules = rules\<rparr>)))))"

fun simulate_days ::
  "sim_env \<Rightarrow> datetime \<Rightarrow> string list \<Rightarrow> run_state \<Rightarrow> nat list \<Rightarrow> error + run_state" where
  "simulate_days env start_d symbols rs [] = Inr rs"
| "simulate_days env start_d symbols rs (day # rest) =
     (case day_step env start_d symbols rs day of
        Inl e \<Rightarrow> Inl e
      | Inr rs' \<Rightarrow> simulate_days env start_d symbols rs' rest)"

fun pair_trades ::
  "(string \<rightharpoonup> rat list) \<Rightarrow> int \<Rightarrow> int \<Rightarrow> BacktestTrade list \<Rightarrow> int \<times> int" where
  \<comment> \<open>the win/loss loop: \<open>buy_prices\<close>, \<open>winning\<close>, \<open>losing\<close>\<close>
  "pair_trades buy_prices winning losing [] = (winning, losing)"
| "pair_trades buy_prices winning losing (trade # rest) =
     (if side trade = ''buy'' then
        pair_trades
          (buy_prices(symbol' trade \<mapsto>
             (case buy_prices (symbol' trade) of None \<Rightarrow> [] | Some bs \<Rightarrow> bs) @ [price trade]))
          winning losing rest
      else if side trade = ''sell'' then
        (case buy_prices (symbol' trade) of
           Some (buy_price # bs) \<Rightarrow>
             if price trade > buy_price
             then pair_trades (buy_prices(symbol' trade \<mapsto> bs)) (winning + 1) losing rest
             else pair_trades (buy_prices(symbol' trade \<mapsto> bs)) winning (losing + 1) rest
         | _ \<Rightarrow> pair_trades buy_prices winning losing rest)
      else pair_trades buy_prices winning losing rest)"

fun drawdown_loop :: "rat \<Rightarrow> rat \<Rightarrow> rat list \<Rightarrow> error + rat" where
  "drawdown_loop peak max_dd [] = Inr max_dd"
| "drawdown_loop peak max_dd (equity # rest) =
     (let peak' = (if equity > peak then equity else peak) in
      case dec_div (dec_sub peak' equity) peak' of
        Inl e \<Rightarrow> Inl e
      | Inr drawdown \<Rightarrow>
          drawdown_loop peak' (if drawdown > max_dd then drawdown else max_dd) rest)"

definition calc_max_drawdown :: "rat list \<Rightarrow> error + rat" where
  "calc_max_drawdown equity_curve =
     (case equity_curve of
        [] \<Rightarrow> Inl IndexError
      | peak # _ \<Rightarrow> drawdown_loop peak 0 equity_curve)"

definition calc_win_rate :: "int \<Rightarrow> int \<Rightarrow> error + rat" where
  \<comment> \<open>\<^verbatim>\<open>Decimal(str(winning / total_completed)) if total_completed > 0 else Decimal("0")\<close>\<close>
  "calc_win_rate winning losing =
     (let total_completed = winning + losing in
      if total_completed > 0 then
        (case int_true_div winning total_completed of
           Inl e \<Rightarrow> Inl e
         | Inr ratio \<Rightarrow> Inr (Decimal_of_float_str ratio))
      else Inr 0)"

definition final_metrics ::
  "Backtester \<Rightarrow> sim_env \<Rightarrow> datetime \<Rightarrow> datetime \<Rightarrow> run_state \<Rightarrow> error + BacktestResult" where
  "final_metrics self env start_d end_d rs =
     (if rs_equity_curve rs = [] then Inl IndexError
      else
        let final_cap = last (rs_equity_curve rs);
            total_ret = dec_sub final_cap (initial_capital self)
        in
        case dec_div total_ret (initial_capital self) of
          Inl e \<Rightarrow> Inl e
        | Inr total_ret_pct \<Rightarrow>
            (case pair_trades Map.empty 0 0 (st_trades (rs_sim rs)) of (winning, losing) \<Rightarrow>
               (case calc_win_rate winning losing of
                  Inl e \<Rightarrow> Inl e
                | Inr rate \<Rightarrow>
               (case calc_max_drawdown (rs_equity_curve rs) of
                  Inl e \<Rightarrow> Inl e
                | Inr max_dd \<Rightarrow>
                    Inr \<lparr>start_date = start_d, end_date = end_d,
                         initial_capital' = initial_capital self,
                         final_capital = final_cap,
                         total_return = total_ret,
                         total_return_pct = total_ret_pct,
                         total_trades = int (length (st_trades (rs_sim rs))),
                         winning_trades = winning,
                         losing_trades = losing,
                         win_rate = rate,
                         max_drawdown = max_dd,
                         trades = st_trades (rs_sim rs)\<rparr>))))"

definition initial_run_state :: "Backtester \<Rightarrow> sim_env \<Rightarrow> Rule list \<Rightarrow> run_state" where
  "initial_run_state self env rules =
     \<lparr>rs_prices = init_prices env Map.empty rules,
      rs_sim = \<lparr>st_cash = initial_capital self, st_positions = [], st_trades = []\<rparr>,
      rs_equity_curve = [initial_capital self],
      rs_rules = rules\<rparr>"

definition run ::
  "Backtester \<Rightarrow> sim_env \<Rightarrow> Rule list \<Rightarrow> int \<Rightarrow> error + (BacktestResult \<times> Rule list)" where
  \<comment> \<open>returns the result and the caller's rules as the run leaves them\<close>
  "run self env rules days =
     (if rules = [] then Inl (ValueError ''No rules to backtest'')
      else
        let symbols = remdups (map symbol rules) in
        case timedelta days of
          Inl e \<Rightarrow> Inl e
        | Inr delta \<Rightarrow>
        (case datetime_sub (now_start env) delta of
           Inl e \<Rightarrow> Inl e
         | Inr start_d \<Rightarrow>
             let end_d = now_end env in
             case simulate_days env start_d symbols (initial_run_state self env rules)
                    [0..<nat days] of
               Inl e \<Rightarrow> Inl e
             | Inr rs \<Rightarrow>
                 (case final_metrics self env start_d end_d rs of
                    Inl e \<Rightarrow> Inl e
                  | Inr result \<Rightarrow> Inr (result, rs_rules rs))))"

section \<open>Trading engine (trader/core/engine.py)\<close>

text \<open>
  The loop of the engine, seen from outside. Time is measured in seconds. What one cycle
  does is the evaluator's business; the loop only sees how long the cycle took, and an
  exception from the cycle is caught and logged. \<open>stop\<close> is called from outside the
  loop (by the signal handler, or by another caller): \<open>stop_at\<close> is the moment of the
  request, if there is one, and the flag \<^verbatim>\<open>_stop_requested\<close> reads true from then on.
  \<^verbatim>\<open>time.sleep(s)\<close> returns when \<open>s\<close> seconds have passed. A run of the loop is the list
  of what it did; the loop may run forever, so it is given fuel, one unit per test of the
  \<^verbatim>\<open>while\<close> condition.
\<close>

record TradingEngine =
  poll_interval :: int
  dry_run :: bool

record loop_env =
  stop_at :: "rat option"
  cycle_duration :: "nat \<Rightarrow> rat"

datatype loop_event = CycleStart rat | Sleep rat rat | LoopExit rat

definition stop_requested :: "loop_env \<Rightarrow> rat \<Rightarrow> bool" where
  "stop_requested env t = (case stop_at env of None \<Rightarrow> False | Some ts \<Rightarrow> ts \<le> t)"

definition sleep_time :: "TradingEngine \<Rightarrow> rat \<Rightarrow> rat" where
  "sleep_time self elapsed = max 0 (of_int (poll_interval self) - elapsed)"

fun run_loop :: "nat \<Rightarrow> TradingEngine \<Rightarrow> loop_env \<Rightarrow> rat \<Rightarrow> nat \<Rightarrow> loop_event list option" where
  "run_loop 0 self env now k = None"
| "run_loop (Suc fuel) self env now k =
     (if stop_requested env now then Some [LoopExit now]
      else
        let cycle_start = now;
            after_cycle = cycle_start + cycle_duration env k;
            elapsed = after_cycle - cycle_start
        in
        if sleep_time self elapsed > 0 \<and> \<not> stop_requested env after_cycle
        then map_option
               (\<lambda>es. CycleStart cycle_start # Sleep after_cycle (sleep_time self elapsed) # es)
               (run_loop fuel self env (after_cycle + sleep_time self elapsed) (Suc k))
        else map_option (\<lambda>es. CycleStart cycle_start # es)
               (run_loop fuel self env after_cycle (Suc k)))"

text \<open>
  Properties of a run, as executable checks. \<open>events_ok\<close>: a cycle starts and a sleep is
  entered only while no stop has been requested, and the loop exits on a requested stop.
  \<open>sleeps_complete\<close>: what follows a sleep is the exit at the end of the sleep if a stop has
  been requested by then, and the next cycle otherwise. \<open>never_sleeps_past_stop\<close>: every
  sleep is over by the moment of the stop request.
\<close>

fun events_ok :: "loop_env \<Rightarrow> loop_event list \<Rightarrow> bool" where
  "events_ok env [] = True"
| "events_ok env (CycleStart t # es) = (\<not> stop_requested env t \<and> events_ok env es)"
| "events_ok env (Sleep t d # es) = (\<not> stop_requested env t \<and> 0 < d \<and> events_ok env es)"
| "events_ok env (LoopExit t # es) = (stop_requested env t \<and> es = [])"

fun sleeps_complete :: "loop_env \<Rightarrow> loop_event list \<Rightarrow> bool" where
  "sleeps_complete env [] = True"
| "sleeps_complete env (Sleep t d # es) =
     ((case es of
         [] \<Rightarrow> False
       | e # rest \<Rightarrow>
           e = (if stop_requested env (t + d) then LoopExit (t + d) else CycleStart (t + d)))
      \<and> sleeps_complete env es)"
| "sleeps_complete env (e # es) = sleeps_complete env es"

definition never_sleeps_past_stop :: "loop_env \<Rightarrow> loop_event list \<Rightarrow> bool" where
  "never_sleeps_past_stop env tr =
     list_all (\<lambda>e. case e of
                      Sleep t d \<Rightarrow> (case stop_at env of None \<Rightarrow> True | Some ts \<Rightarrow> t + d \<le> ts)
                    | _ \<Rightarrow> True) tr"

definition example_loop_env :: loop_env where
  \<comment> \<open>cycles that take no time, and a stop requested at second 10\<close>
  "example_loop_env = \<lparr>stop_at = Some 10, cycle_duration = (\<lambda>k. 0)\<rparr>"

section \<open>Specification-side definitions\<close>

text \<open>
  The drawdown as the specification words it: at each sample of the equity curve the peak
  is the largest sample so far, the drawdown there is \<open>(peak - value) / peak\<close> (in the
  program's arithmetic), and the maximum drawdown is the largest of these.
  \<open>equity_curve_of\<close> names the equity curve a run builds, which is not part of its result.
\<close>

definition running_peak :: "rat list \<Rightarrow> nat \<Rightarrow> rat" where
  "running_peak curve i = Max (set (take (Suc i) curve))"

definition drawdown_at :: "rat list \<Rightarrow> nat \<Rightarrow> rat" where
  "drawdown_at curve i =
     ctx_round (dec_sub (running_peak curve i) (curve ! i) / running_peak curve i)"

definition equity_curve_of :: "Backtester \<Rightarrow> sim_env \<Rightarrow> Rule list \<Rightarrow> int \<Rightarrow> rat list" where
  "equity_curve_of self env rules days =
     (case simulate_days env (now_start env - of_int days) (remdups (map symbol rules))
             (initial_run_state self env rules) [0..<nat days] of
        Inl e \<Rightarrow> []
      | Inr rs \<Rightarrow> rs_equity_curve rs)"

definition spec_max_drawdown :: "rat list \<Rightarrow> rat" where
  "spec_max_drawdown curve = Max (drawdown_at curve ` {..<length curve})"


text \<open>
  The pairing of trades as the specification words it: for one symbol, each sell consumes
  the oldest buy not yet consumed (if there is one) and forms a pair (buy price, sell
  price) with it; a pair is winning when the sell price is strictly greater. The counts of
  a trade list are the sums over its symbols. \<open>queue_of\<close> reads the program's dict of
  queues, an absent key being the empty queue.
\<close>

fun fifo_pairs :: "rat list \<Rightarrow> BacktestTrade list \<Rightarrow> (rat \<times> rat) list" where
  "fifo_pairs unmatched [] = []"
| "fifo_pairs unmatched (t # ts) =
     (if side t = ''buy'' then fifo_pairs (unmatched @ [price t]) ts
      else if side t = ''sell'' then
        (case unmatched of
           [] \<Rightarrow> fifo_pairs [] ts
         | b # bs \<Rightarrow> (b, price t) # fifo_pairs bs ts)
      else fifo_pairs unmatched ts)"

definition trades_of :: "string \<Rightarrow> BacktestTrade list \<Rightarrow> BacktestTrade list" where
  "trades_of s ts = filter (\<lambda>t. symbol' t = s) ts"

definition is_win :: "rat \<times> rat \<Rightarrow> bool" where
  "is_win pr = (snd pr > fst pr)"

definition wins :: "(rat \<times> rat) list \<Rightarrow> int" where
  "wins prs = int (length (filter is_win prs))"

definition losses :: "(rat \<times> rat) list \<Rightarrow> int" where
  "losses prs = int (length (filter (\<lambda>pr. \<not> is_win pr) prs))"

definition spec_winning :: "BacktestTrade list \<Rightarrow> int" where
  "spec_winning ts = (\<Sum>s \<in> set (map symbol' ts). wins (fifo_pairs [] (trades_of s ts)))"

definition spec_losing :: "BacktestTrade list \<Rightarrow> int" where
  "spec_losing ts = (\<Sum>s \<in> set (map symbol' ts). losses (fifo_pairs [] (trades_of s ts)))"

definition queue_of :: "(string \<rightharpoonup> rat list) \<Rightarrow> string \<Rightarrow> rat list" where
  "queue_of bp s = (case bp s of None \<Rightarrow> [] | Some q \<Rightarrow> q)"


text \<open>The price condition of a rule as the specification words it.\<close>

definition price_condition_holds :: "Rule \<Rightarrow> rat \<Rightarrow> bool" where
  "price_condition_holds r p =
     (case condition r of
        BELOW \<Rightarrow> p \<le> dec_val (target_price r)
      | ABOVE \<Rightarrow> p \<ge> dec_val (target_price r))"

text \<open>
  The rule loop as the specification words it. The prices of a day do not depend on the
  trading: \<open>day_prices\<close> lists them day by day. \<open>rule_visits\<close> lists every pair of a
  simulated day and a rule, day by day and within a day in the order of the rules, each
  with the date and the prices of its day. A visit \<open>fires\<close> when its rule is enabled and
  the price condition of the rule holds at the day's price of its symbol; neither the
  \<open>triggered\<close> flag nor what happened at earlier visits is asked. \<open>apply_fills\<close> executes
  the block under \<^verbatim>\<open>if triggered:\<close> for a list of visits, one after the other, and
  \<open>spec_locals\<close> are the locals (cash, positions, trades) this leaves when it is done for
  exactly the visits of a run that fire.
\<close>

fun day_prices ::
  "sim_env \<Rightarrow> string list \<Rightarrow> (string \<rightharpoonup> rat) \<Rightarrow> nat list
     \<Rightarrow> error + (string \<rightharpoonup> rat) list" where
  "day_prices env symbols prices [] = Inr []"
| "day_prices env symbols prices (day # rest) =
     (case update_prices env day prices symbols of
        Inl e \<Rightarrow> Inl e
      | Inr prices' \<Rightarrow>
          (case day_prices env symbols prices' rest of
             Inl e \<Rightarrow> Inl e
           | Inr ps \<Rightarrow> Inr (prices' # ps)))"

type_synonym visit = "datetime \<times> (string \<rightharpoonup> rat) \<times> Rule"

definition rule_visits ::
  "datetime \<Rightarrow> Rule list \<Rightarrow> nat list \<Rightarrow> (string \<rightharpoonup> rat) list \<Rightarrow> visit list" where
  "rule_visits start_d rules days ps =
     concat (map (\<lambda>(day, prices). map (\<lambda>rule. (start_d + of_nat day, prices, rule)) rules)
               (zip days ps))"

definition fires :: "visit \<Rightarrow> bool" where
  "fires v =
     (case v of (current_date, prices, rule) \<Rightarrow>
        enabled rule \<and>
        (case prices (symbol rule) of
           None \<Rightarrow> False
         | Some p \<Rightarrow> price_condition_holds rule p))"

fun apply_fills :: "sim_state \<Rightarrow> visit list \<Rightarrow> error + sim_state" where
  "apply_fills st [] = Inr st"
| "apply_fills st ((current_date, prices, rule) # vs) =
     (case prices (symbol rule) of
        None \<Rightarrow> Inl (KeyError (symbol rule))
      | Some p \<Rightarrow>
          (case fire_rule current_date st rule p of
             Inl e \<Rightarrow> Inl e
           | Inr (st', rule') \<Rightarrow> apply_fills st' vs))"

definition spec_locals :: "Backtester \<Rightarrow> sim_env \<Rightarrow> Rule list \<Rightarrow> int \<Rightarrow> error + sim_state" where
  "spec_locals self env rules days =
     (case day_prices env (remdups (map symbol rules)) (init_prices env Map.empty rules)
             [0..<nat days] of
        Inl e \<Rightarrow> Inl e
      | Inr ps \<Rightarrow>
          apply_fills \<lparr>st_cash = initial_capital self, st_positions = [], st_trades = []\<rparr>
            (filter fires
               (rule_visits (now_start env - of_int days) rules [0..<nat days] ps)))"

section \<open>Sample inputs\<close>

definition example_env :: "rat \<Rightarrow> sim_env" where
  \<comment> \<open>no initial offset; the price moves by the factor \<open>1 + c\<close> on day 1 and not otherwise\<close>
  "example_env c =
     \<lparr>now_start = 30, now_end = 30, uniform_offset = (\<lambda>s. 0),
      gauss_change = (\<lambda>d s. if d = 1 then c else 0)\<rparr>"

definition example_buy_rule :: Rule where
  "example_buy_rule =
     \<lparr>symbol = ''AAPL'', action = BUY, condition = BELOW,
      target_price = Decimal False 10000 (- 2), quantity = 10, id' = ''r1'',
      enabled = True, triggered = True, description = None\<rparr>"

definition example_sell_rule :: Rule where
  "example_sell_rule =
     \<lparr>symbol = ''AAPL'', action = SELL, condition = ABOVE,
      target_price = Decimal False 105 0, quantity = 15, id' = ''r2'',
      enabled = True, triggered = False, description = None\<rparr>"

definition example_trade :: "string \<Rightarrow> rat \<Rightarrow> BacktestTrade" where
  "example_trade sd px =
     \<lparr>timestamp = 0, symbol' = ''AAPL'', side = sd, quantity' = 1, price = px, rule_id = ''r1''\<rparr>"

definition example_result_down :: BacktestResult where
  "example_result_down =
     \<lparr>start_date = 27, end_date = 30, initial_capital' = 100000,
      final_capital = 99900, total_return = - 100,
      total_return_pct = - 1 / 1000, total_trades = 3,
      winning_trades = 0, losing_trades = 0, win_rate = 0,
      max_drawdown = 1 / 1000,
      trades =
        [\<lparr>timestamp = 27, symbol' = ''AAPL'', side = ''buy'',
           quantity' = 10, price = 100, rule_id = ''r1''\<rparr>,
         \<lparr>timestamp = 28, symbol' = ''AAPL'', side = ''buy'',
           quantity' = 10, price = 90, rule_id = ''r1''\<rparr>,
         \<lparr>timestamp = 29, symbol' = ''AAPL'', side = ''buy'',
           quantity' = 10, price = 90, rule_id = ''r1''\<rparr>]\<rparr>"

definition example_result_up :: BacktestResult where
  "example_result_up =
     \<lparr>start_date = 27, end_date = 30, initial_capital' = 100000,
      final_capital = 100100, total_return = 100,
      total_return_pct = 1 / 1000, total_trades = 2,
      winning_trades = 1, losing_trades = 0, win_rate = 1,
      max_drawdown = 0,
      trades =
        [\<lparr>timestamp = 27, symbol' = ''AAPL'', side = ''buy'',
           quantity' = 10, price = 100, rule_id = ''r1''\<rparr>,
         \<lparr>timestamp = 28, symbol' = ''AAPL'', side = ''sell'',
           quantity' = 10, price = 110, rule_id = ''r2''\<rparr>]\<rparr>"

definition example_disabled_rule :: Rule where
  "example_disabled_rule =
     \<lparr>symbol = ''AAPL'', action = BUY, condition = BELOW,
      target_price = Decimal False 10000 (- 2), quantity = 5, id' = ''r0'',
      enabled = False, triggered = False, description = None\<rparr>"

definition example_sell_95_rule :: Rule where
  "example_sell_95_rule =
     \<lparr>symbol = ''AAPL'', action = SELL, condition = ABOVE,
      target_price = Decimal False 95 0, quantity = 10, id' = ''r3'',
      enabled = True, triggered = False, description = None\<rparr>"

definition example_env_swing :: sim_env where
  \<comment> \<open>no initial offset; the price falls by a tenth on day 1 and rises by a tenth on day 2\<close>
  "example_env_swing =
     \<lparr>now_start = 30, now_end = 30, uniform_offset = (\<lambda>s. 0),
      gauss_change = (\<lambda>d s. if d = 1 then - 1 / 10 else if d = 2 then 1 / 10 else 0)\<rparr>"

definition example_result_swing :: BacktestResult where
  "example_result_swing =
     \<lparr>start_date = 26, end_date = 30, initial_capital' = 100000,
      final_capital = 100090, total_return = 90,
      total_return_pct = 9 / 10000, total_trades = 7,
      winning_trades = 1, losing_trades = 2,
      win_rate = 3333333333333333 / 10 ^ 16,
      max_drawdown = 0,
      trades =
        [\<lparr>timestamp = 26, symbol' = ''AAPL'', side = ''buy'',
           quantity' = 10, price = 100, rule_id = ''r1''\<rparr>,
         \<lparr>timestamp = 26, symbol' = ''AAPL'', side = ''sell'',
           quantity' = 10, price = 100, rule_id = ''r3''\<rparr>,
         \<lparr>timestamp = 27, symbol' = ''AAPL'', side = ''buy'',
           quantity' = 10, price = 90, rule_id = ''r1''\<rparr>,
         \<lparr>timestamp = 28, symbol' = ''AAPL'', side = ''buy'',
           quantity' = 10, price = 99, rule_id = ''r1''\<rparr>,
         \<lparr>timestamp = 28, symbol' = ''AAPL'', side = ''sell'',
           quantity' = 10, price = 99, rule_id = ''r3''\<rparr>,
         \<lparr>timestamp = 29, symbol' = ''AAPL'', side = ''buy'',
           quantity' = 10, price = 99, rule_id = ''r1''\<rparr>,
         \<lparr>timestamp = 29, symbol' = ''AAPL'', side = ''sell'',
           quantity' = 10, price = 99, rule_id = ''r3''\<rparr>]\<rparr>"

section \<open>Properties of the arithmetic\<close>

lemma pow10_powi: "pow10 e = 10 powi e"
  by (simp add: pow10_def power_int_def inverse_eq_divide power_one_over)

lemma pow10_pos: "0 < pow10 e"
  by (simp add: pow10_powi)

lemma pow10_add: "pow10 (a + b) = pow10 a * pow10 b"
  by (simp add: pow10_powi power_int_add)

lemma pow10_nat: "pow10 (int k) = 10 ^ k"
  by (simp add: pow10_powi)

lemma pow10_less: "a < b \<Longrightarrow> pow10 a < pow10 b"
  unfolding pow10_powi by (rule power_int_strict_increasing) simp_all

lemma pow10_less_D: "pow10 a < pow10 b \<Longrightarrow> a < b"
proof (rule ccontr)
  assume 1: "pow10 a < pow10 b" and "\<not> a < b"
  then have "b \<le> a" by simp
  then have "pow10 b \<le> pow10 a"
    unfolding pow10_powi by (intro power_int_increasing) simp_all
  with 1 show False by simp
qed

lemma ndigits_pos: "1 \<le> ndigits n"
proof (induction n rule: ndigits.induct)
  case (1 n)
  show ?case
  proof (cases "n < 10")
    case True
    then show ?thesis by (subst ndigits.simps) simp
  next
    case False
    with 1 show ?thesis by (subst ndigits.simps) simp
  qed
qed

lemma ndigits_spec:
  "1 \<le> n \<Longrightarrow> 10 ^ nat (ndigits n - 1) \<le> n \<and> n < 10 ^ nat (ndigits n)"
proof (induction n rule: ndigits.induct)
  case (1 n)
  show ?case
  proof (cases "n < 10")
    case True
    then have "ndigits n = 1" by (subst ndigits.simps) simp
    with True "1.prems" show ?thesis by simp
  next
    case False
    let ?m = "n div 10"
    let ?d = "ndigits ?m"
    from False have m1: "1 \<le> ?m" by simp
    from False have nd: "ndigits n = 1 + ?d" by (subst ndigits.simps) simp
    from "1.IH" [OF False m1] have lo: "10 ^ nat (?d - 1) \<le> ?m" and hi: "?m < 10 ^ nat ?d"
      by simp_all
    have d1: "1 \<le> ?d" by (rule ndigits_pos)
    then have e1: "nat ?d = Suc (nat (?d - 1))" by simp
    have "(10::int) ^ nat ?d = 10 * 10 ^ nat (?d - 1)" by (subst e1) simp
    also have "\<dots> \<le> 10 * ?m" using lo by simp
    also have "\<dots> \<le> n" by simp
    finally have A: "10 ^ nat (ndigits n - 1) \<le> n" by (simp add: nd)
    have "n < 10 * (?m + 1)" by simp
    also have "\<dots> \<le> 10 * 10 ^ nat ?d" using hi by simp
    also have "\<dots> = 10 ^ nat (1 + ?d)" using d1 by (simp add: nat_add_distrib)
    finally have B: "n < 10 ^ nat (ndigits n)" by (simp add: nd)
    from A B show ?thesis ..
  qed
qed

lemma adjusted_spec:
  assumes "x \<noteq> 0"
  shows "pow10 (adjusted x) \<le> \<bar>x\<bar> \<and> \<bar>x\<bar> < pow10 (adjusted x + 1)"
proof (cases "1 \<le> \<bar>x\<bar>")
  case True
  let ?n = "\<lfloor>\<bar>x\<bar>\<rfloor>"
  from True have n1: "1 \<le> ?n" by simp
  have adj: "adjusted x = ndigits ?n - 1" using True by (simp add: adjusted_def)
  have d1: "1 \<le> ndigits ?n" by (rule ndigits_pos)
  from ndigits_spec [OF n1] have lo: "10 ^ nat (ndigits ?n - 1) \<le> ?n"
    and hi: "?n < 10 ^ nat (ndigits ?n)" by simp_all
  have p1: "pow10 (adjusted x) = of_int (10 ^ nat (ndigits ?n - 1))"
    using d1 by (simp add: adj pow10_def)
  have p2: "pow10 (adjusted x + 1) = of_int (10 ^ nat (ndigits ?n))"
    using d1 by (simp add: adj pow10_def)
  have "of_int (10 ^ nat (ndigits ?n - 1)) \<le> (of_int ?n :: rat)"
    using lo by (simp only: of_int_le_iff)
  also have "\<dots> \<le> \<bar>x\<bar>" by simp
  finally have A: "pow10 (adjusted x) \<le> \<bar>x\<bar>" by (simp only: p1)
  from hi have "?n + 1 \<le> 10 ^ nat (ndigits ?n)" by simp
  then have "(of_int (?n + 1) :: rat) \<le> of_int (10 ^ nat (ndigits ?n))"
    by (simp only: of_int_le_iff)
  moreover have "\<bar>x\<bar> < of_int (?n + 1)" by linarith
  ultimately have B: "\<bar>x\<bar> < pow10 (adjusted x + 1)" by (simp only: p2)
  from A B show ?thesis ..
next
  case False
  let ?y = "1 / \<bar>x\<bar>"
  let ?m = "\<lceil>?y\<rceil> - 1"
  let ?k = "ndigits ?m"
  from assms have xpos: "0 < \<bar>x\<bar>" by simp
  from False have xlt: "\<bar>x\<bar> < 1" by simp
  with xpos have y1: "1 < ?y" by (simp add: field_simps)
  then have "2 \<le> \<lceil>?y\<rceil>" by linarith
  then have m1: "1 \<le> ?m" by simp
  have adj: "adjusted x = - ?k" using False by (simp add: adjusted_def)
  have k1: "1 \<le> ?k" by (rule ndigits_pos)
  from ndigits_spec [OF m1] have lo: "10 ^ nat (?k - 1) \<le> ?m" and hi: "?m < 10 ^ nat ?k"
    by simp_all
  have my: "of_int ?m < ?y" by linarith
  have ym: "?y \<le> of_int (?m + 1)" by (simp add: le_of_int_ceiling)
  have p1: "pow10 (adjusted x) = 1 / of_int (10 ^ nat ?k)"
    using k1 by (simp add: adj pow10_def)
  have p2: "pow10 (adjusted x + 1) = 1 / of_int (10 ^ nat (?k - 1))"
  proof (cases "?k = 1")
    case True
    then show ?thesis by (simp add: adj pow10_def)
  next
    case False
    with k1 have "- ?k + 1 < 0" by simp
    then show ?thesis by (simp add: adj pow10_def)
  qed
  from hi have "?m + 1 \<le> 10 ^ nat ?k" by simp
  then have "(of_int (?m + 1) :: rat) \<le> of_int (10 ^ nat ?k)"
    by (simp only: of_int_le_iff)
  with ym have "?y \<le> of_int (10 ^ nat ?k)" by linarith
  then have A: "pow10 (adjusted x) \<le> \<bar>x\<bar>"
    unfolding p1 using xpos by (simp add: field_simps)
  have "(of_int (10 ^ nat (?k - 1)) :: rat) \<le> of_int ?m"
    using lo by (simp only: of_int_le_iff)
  with my have "of_int (10 ^ nat (?k - 1)) < ?y" by linarith
  then have B: "\<bar>x\<bar> < pow10 (adjusted x + 1)"
    unfolding p2 using xpos by (simp add: field_simps)
  from A B show ?thesis ..
qed

lemma round_half_even_int: "round_half_even (of_int m) = m"
  by (simp add: round_half_even_def)

lemma round_half_even_error: "\<bar>of_int (round_half_even y) - y\<bar> \<le> 1 / 2"
proof -
  define f where "f = \<lfloor>y\<rfloor>"
  define r where "r = y - of_int f"
  have r0: "0 \<le> r" and r1: "r < 1"
    unfolding r_def f_def by linarith+
  have y: "y = of_int f + r"
    by (simp add: r_def)
  have rhe: "round_half_even y =
      (if r < 1 / 2 then f else if 1 / 2 < r then f + 1 else if even f then f else f + 1)"
    unfolding round_half_even_def Let_def r_def f_def by (rule refl)
  consider "r < 1 / 2" | "1 / 2 < r" | "r = 1 / 2" by linarith
  then show ?thesis
  proof cases
    case 1
    then have "round_half_even y = f"
      by (simp only: rhe if_True)
    with 1 r0 show ?thesis by (simp add: y)
  next
    case 2
    then have "round_half_even y = f + 1"
      unfolding rhe by simp
    with 2 r1 show ?thesis by (simp add: y)
  next
    case 3
    then have "round_half_even y = f \<or> round_half_even y = f + 1"
      unfolding rhe by simp
    with 3 show ?thesis by (auto simp: y)
  qed
qed

lemma ctx_round_error:
  assumes "x \<noteq> 0"
  shows "\<bar>ctx_round x - x\<bar> \<le> pow10 (adjusted x - 27) / 2"
proof -
  let ?q = "pow10 (adjusted x - 27)"
  have q: "0 < ?q" by (rule pow10_pos)
  have "ctx_round x - x = (of_int (round_half_even (x / ?q)) - x / ?q) * ?q"
    using assms q by (simp add: ctx_round_def prec_def Let_def algebra_simps)
  then have "\<bar>ctx_round x - x\<bar> = \<bar>of_int (round_half_even (x / ?q)) - x / ?q\<bar> * ?q"
    using q by (simp add: abs_mult)
  also have "\<dots> \<le> (1 / 2) * ?q"
    using q round_half_even_error [of "x / ?q"] by (intro mult_right_mono) simp_all
  finally show ?thesis by simp
qed

lemma ctx_round_exact:
  assumes "\<bar>n\<bar> < 10 ^ 28"
  shows "ctx_round (of_int n * pow10 e) = of_int n * pow10 e"
proof (cases "n = 0")
  case True
  then show ?thesis by (simp add: ctx_round_def)
next
  case False
  let ?x = "of_int n * pow10 e :: rat"
  let ?q = "adjusted ?x - 27"
  have pe: "0 < pow10 e" by (rule pow10_pos)
  with False have x0: "?x \<noteq> 0" by simp
  have "\<bar>?x\<bar> = of_int \<bar>n\<bar> * pow10 e"
    using pe by (simp add: abs_mult)
  also have "\<dots> < of_int (10 ^ 28) * pow10 e"
    using assms pe by (intro mult_strict_right_mono) (simp_all only: of_int_less_iff)
  also have "\<dots> = pow10 (28 + e)"
  proof -
    have "pow10 28 = of_int (10 ^ 28)" by (simp add: pow10_def)
    then show ?thesis by (simp only: pow10_add)
  qed
  finally have "\<bar>?x\<bar> < pow10 (28 + e)" .
  with adjusted_spec [OF x0] have "pow10 (adjusted ?x) < pow10 (28 + e)" by linarith
  then have "adjusted ?x < 28 + e" by (rule pow10_less_D)
  then have qe: "0 \<le> e - ?q" by simp
  have "pow10 e = pow10 (e - ?q) * pow10 ?q"
    by (simp flip: pow10_add)
  also have "pow10 (e - ?q) = of_int (10 ^ nat (e - ?q))"
    using qe by (simp add: pow10_def)
  finally have split: "pow10 e = of_int (10 ^ nat (e - ?q)) * pow10 ?q" .
  have qpos: "0 < pow10 ?q" by (rule pow10_pos)
  have "?x / pow10 ?q = of_int (n * 10 ^ nat (e - ?q))"
    using qpos by (subst split) simp
  then have "round_half_even (?x / pow10 ?q) = n * 10 ^ nat (e - ?q)"
    by (simp only: round_half_even_int)
  then have "ctx_round ?x = of_int (n * 10 ^ nat (e - ?q)) * pow10 ?q"
    using x0 by (simp add: ctx_round_def prec_def Let_def)
  also have "\<dots> = ?x"
    by (subst (2) split) simp
  finally show ?thesis .
qed

lemma ctx_round_int:
  "\<bar>n\<bar> < 10 ^ 28 \<Longrightarrow> ctx_round (of_int n) = of_int n"
  using ctx_round_exact [of n 0] by (simp add: pow10_def)

lemma dec_val_exact:
  "dcoeff d < 10 ^ 28 \<Longrightarrow> ctx_round (dec_val d) = dec_val d"
proof -
  assume a: "dcoeff d < 10 ^ 28"
  let ?n = "(if dsign d then - 1 else 1) * int (dcoeff d)"
  have "\<bar>?n\<bar> < 10 ^ 28" using a by (simp add: abs_mult)
  then have "ctx_round (of_int ?n * pow10 (dexp d)) = of_int ?n * pow10 (dexp d)"
    by (rule ctx_round_exact)
  moreover have "dec_val d = of_int ?n * pow10 (dexp d)"
    by (simp add: dec_val_def)
  ultimately show ?thesis by simp
qed

lemma pow2_powi: "pow2 e = 2 powi e"
  by (simp add: pow2_def power_int_def inverse_eq_divide power_one_over)

lemma pow2_pos: "0 < pow2 e"
  by (simp add: pow2_powi)

lemma pow2_add: "pow2 (a + b) = pow2 a * pow2 b"
  by (simp add: pow2_powi power_int_add)

lemma nbits_pos: "1 \<le> nbits n"
proof (induction n rule: nbits.induct)
  case (1 n)
  show ?case
  proof (cases "n < 2")
    case True
    then show ?thesis by (subst nbits.simps) simp
  next
    case False
    with 1 show ?thesis by (subst nbits.simps) simp
  qed
qed

lemma nbits_spec:
  "1 \<le> n \<Longrightarrow> 2 ^ nat (nbits n - 1) \<le> n \<and> n < 2 ^ nat (nbits n)"
proof (induction n rule: nbits.induct)
  case (1 n)
  show ?case
  proof (cases "n < 2")
    case True
    then have "nbits n = 1" by (subst nbits.simps) simp
    with True "1.prems" show ?thesis by simp
  next
    case False
    let ?m = "n div 2"
    let ?d = "nbits ?m"
    from False have m1: "1 \<le> ?m" by simp
    from False have nd: "nbits n = 1 + ?d" by (subst nbits.simps) simp
    from "1.IH" [OF False m1] have lo: "2 ^ nat (?d - 1) \<le> ?m" and hi: "?m < 2 ^ nat ?d"
      by simp_all
    have d1: "1 \<le> ?d" by (rule nbits_pos)
    then have e1: "nat ?d = Suc (nat (?d - 1))" by simp
    have "(2::int) ^ nat ?d = 2 * 2 ^ nat (?d - 1)" by (subst e1) simp
    also have "\<dots> \<le> 2 * ?m" using lo by simp
    also have "\<dots> \<le> n" by simp
    finally have A: "2 ^ nat (nbits n - 1) \<le> n" by (simp add: nd)
    have "n < 2 * (?m + 1)" by simp
    also have "\<dots> \<le> 2 * 2 ^ nat ?d" using hi by simp
    also have "\<dots> = 2 ^ nat (1 + ?d)" using d1 by (simp add: nat_add_distrib)
    finally have B: "n < 2 ^ nat (nbits n)" by (simp add: nd)
    from A B show ?thesis ..
  qed
qed

lemma binary_exponent_spec:
  assumes "x \<noteq> 0"
  shows "pow2 (binary_exponent x) \<le> \<bar>x\<bar> \<and> \<bar>x\<bar> < pow2 (binary_exponent x + 1)"
proof (cases "1 \<le> \<bar>x\<bar>")
  case True
  let ?n = "\<lfloor>\<bar>x\<bar>\<rfloor>"
  from True have n1: "1 \<le> ?n" by simp
  have adj: "binary_exponent x = nbits ?n - 1" using True by (simp add: binary_exponent_def)
  have d1: "1 \<le> nbits ?n" by (rule nbits_pos)
  from nbits_spec [OF n1] have lo: "2 ^ nat (nbits ?n - 1) \<le> ?n"
    and hi: "?n < 2 ^ nat (nbits ?n)" by simp_all
  have p1: "pow2 (binary_exponent x) = of_int (2 ^ nat (nbits ?n - 1))"
    using d1 by (simp add: adj pow2_def)
  have p2: "pow2 (binary_exponent x + 1) = of_int (2 ^ nat (nbits ?n))"
    using d1 by (simp add: adj pow2_def)
  have "of_int (2 ^ nat (nbits ?n - 1)) \<le> (of_int ?n :: rat)"
    using lo by (simp only: of_int_le_iff)
  also have "\<dots> \<le> \<bar>x\<bar>" by simp
  finally have A: "pow2 (binary_exponent x) \<le> \<bar>x\<bar>" by (simp only: p1)
  from hi have "?n + 1 \<le> 2 ^ nat (nbits ?n)" by simp
  then have "(of_int (?n + 1) :: rat) \<le> of_int (2 ^ nat (nbits ?n))"
    by (simp only: of_int_le_iff)
  moreover have "\<bar>x\<bar> < of_int (?n + 1)" by linarith
  ultimately have B: "\<bar>x\<bar> < pow2 (binary_exponent x + 1)" by (simp only: p2)
  from A B show ?thesis ..
next
  case False
  let ?y = "1 / \<bar>x\<bar>"
  let ?m = "\<lceil>?y\<rceil> - 1"
  let ?k = "nbits ?m"
  from assms have xpos: "0 < \<bar>x\<bar>" by simp
  from False have xlt: "\<bar>x\<bar> < 1" by simp
  with xpos have y1: "1 < ?y" by (simp add: field_simps)
  then have "2 \<le> \<lceil>?y\<rceil>" by linarith
  then have m1: "1 \<le> ?m" by simp
  have adj: "binary_exponent x = - ?k" using False by (simp add: binary_exponent_def)
  have k1: "1 \<le> ?k" by (rule nbits_pos)
  from nbits_spec [OF m1] have lo: "2 ^ nat (?k - 1) \<le> ?m" and hi: "?m < 2 ^ nat ?k"
    by simp_all
  have my: "of_int ?m < ?y" by linarith
  have ym: "?y \<le> of_int (?m + 1)" by (simp add: le_of_int_ceiling)
  have p1: "pow2 (binary_exponent x) = 1 / of_int (2 ^ nat ?k)"
    using k1 by (simp add: adj pow2_def)
  have p2: "pow2 (binary_exponent x + 1) = 1 / of_int (2 ^ nat (?k - 1))"
  proof (cases "?k = 1")
    case True
    then show ?thesis by (simp add: adj pow2_def)
  next
    case False
    with k1 have "- ?k + 1 < 0" by simp
    then show ?thesis by (simp add: adj pow2_def)
  qed
  from hi have "?m + 1 \<le> 2 ^ nat ?k" by simp
  then have "(of_int (?m + 1) :: rat) \<le> of_int (2 ^ nat ?k)"
    by (simp only: of_int_le_iff)
  with ym have "?y \<le> of_int (2 ^ nat ?k)" by linarith
  then have A: "pow2 (binary_exponent x) \<le> \<bar>x\<bar>"
    unfolding p1 using xpos by (simp add: field_simps)
  have "(of_int (2 ^ nat (?k - 1)) :: rat) \<le> of_int ?m"
    using lo by (simp only: of_int_le_iff)
  with my have "of_int (2 ^ nat (?k - 1)) < ?y" by linarith
  then have B: "\<bar>x\<bar> < pow2 (binary_exponent x + 1)"
    unfolding p2 using xpos by (simp add: field_simps)
  from A B show ?thesis ..
qed

lemma float_round_error: "\<bar>float_round y - y\<bar> \<le> \<bar>y\<bar> / 2 ^ 53"
proof (cases "y = 0")
  case True
  then show ?thesis by (simp add: float_round_def)
next
  case False
  let ?q = "pow2 (binary_exponent y - 52)"
  have q: "0 < ?q" by (rule pow2_pos)
  have "float_round y - y = (of_int (round_half_even (y / ?q)) - y / ?q) * ?q"
    using False q by (simp add: float_round_def Let_def algebra_simps)
  then have "\<bar>float_round y - y\<bar> = \<bar>of_int (round_half_even (y / ?q)) - y / ?q\<bar> * ?q"
    using q by (simp add: abs_mult)
  also have "\<dots> \<le> (1 / 2) * ?q"
    using q round_half_even_error [of "y / ?q"] by (intro mult_right_mono) simp_all
  also have "?q = pow2 (binary_exponent y) * pow2 (- 52)"
    by (simp flip: pow2_add)
  also have "pow2 (- 52) = 1 / 2 ^ 52"
    by (simp add: pow2_def)
  finally have "\<bar>float_round y - y\<bar> \<le> pow2 (binary_exponent y) / 2 ^ 53"
    by simp
  also have "\<dots> \<le> \<bar>y\<bar> / 2 ^ 53"
    using binary_exponent_spec [OF False] by (simp add: divide_right_mono)
  finally show ?thesis .
qed

lemma pick_digits_reads_back: "pick_digits x n = Some r \<Longrightarrow> float_round r = x"
  by (auto simp: pick_digits_def Let_def split: if_splits)

lemma repr_search_reads_back:
  "float_round (repr_search x n k) = x \<or> repr_search x n k = x"
proof (induction k arbitrary: n)
  case 0
  show ?case by simp
next
  case (Suc k)
  show ?case
  proof (cases "pick_digits x n")
    case None
    with Suc [of "Suc n"] show ?thesis by simp
  next
    case (Some r)
    from pick_digits_reads_back [OF Some] Some show ?thesis by simp
  qed
qed

lemma repr_search_error: "\<bar>x - repr_search x n k\<bar> \<le> \<bar>repr_search x n k\<bar> / 2 ^ 53"
proof -
  let ?r = "repr_search x n k"
  from repr_search_reads_back [of x n k] show ?thesis
  proof
    assume "float_round ?r = x"
    with float_round_error [of ?r] show ?thesis by simp
  next
    assume "?r = x"
    then show ?thesis by simp
  qed
qed

lemma Decimal_of_float_str_error:
  "\<bar>x - Decimal_of_float_str x\<bar> \<le> \<bar>Decimal_of_float_str x\<bar> / 2 ^ 53"
proof -
  consider "x = 0" | "x < 0" | "0 < x" by linarith
  then show ?thesis
  proof cases
    case 1
    then show ?thesis by (simp add: Decimal_of_float_str_def)
  next
    case 2
    let ?s = "repr_search (- x) 1 17"
    from 2 have r: "Decimal_of_float_str x = - ?s"
      by (simp add: Decimal_of_float_str_def)
    have eq1: "\<bar>x - Decimal_of_float_str x\<bar> = \<bar>- x - ?s\<bar>"
      unfolding r by (simp add: abs_if)
    have eq2: "\<bar>Decimal_of_float_str x\<bar> = \<bar>?s\<bar>"
      unfolding r by simp
    show ?thesis
      unfolding eq1 eq2 by (rule repr_search_error)
  next
    case 3
    then have r: "Decimal_of_float_str x = repr_search x 1 17"
      by (simp add: Decimal_of_float_str_def)
    from repr_search_error [of x 1 17] show ?thesis
      unfolding r by simp
  qed
qed

lemma float_quotient_error:
  "\<bar>Decimal_of_float_str (float_round q) - q\<bar> \<le> \<bar>q\<bar> / 10 ^ 15"
proof -
  let ?x = "float_round q"
  let ?r = "Decimal_of_float_str ?x"
  have a: "\<bar>?x - q\<bar> \<le> \<bar>q\<bar> / 9007199254740992"
    using float_round_error [of q] by simp
  have b: "\<bar>?x - ?r\<bar> \<le> \<bar>?r\<bar> / 9007199254740992"
    using Decimal_of_float_str_error [of ?x] by simp
  from a b have "\<bar>?r - q\<bar> \<le> \<bar>q\<bar> / 1000000000000000"
    by linarith
  then show ?thesis by simp
qed

section \<open>Properties of rules\<close>

text \<open>
  Claim C1. For every rule and every price, \<open>check\<close> returns true if and only if the rule
  is enabled, has not triggered, and the price condition holds: the price is at most the
  target for a BELOW rule and at least the target for an ABOVE rule. A price equal to the
  target triggers in both directions.
\<close>

theorem check_iff:
  "check r p \<longleftrightarrow>
     enabled r \<and> \<not> triggered r \<and>
     (case condition r of
        BELOW \<Rightarrow> dec_val p \<le> dec_val (target_price r)
      | ABOVE \<Rightarrow> dec_val p \<ge> dec_val (target_price r))"
  by (cases "condition r") (auto simp: check_def)

theorem check_iff_witness:
  "check \<lparr>symbol = ''AAPL'', action = BUY, condition = BELOW,
          target_price = Decimal False 17000 (- 2), quantity = 10, id' = ''test123'',
          enabled = True, triggered = False, description = None\<rparr>
     (Decimal False 17000 (- 2))
   \<and> \<not> check \<lparr>symbol = ''AAPL'', action = BUY, condition = BELOW,
          target_price = Decimal False 17000 (- 2), quantity = 10, id' = ''test123'',
          enabled = True, triggered = False, description = None\<rparr>
     (Decimal False 17001 (- 2))
   \<and> check \<lparr>symbol = ''TSLA'', action = SELL, condition = ABOVE,
          target_price = Decimal False 20000 (- 2), quantity = 10, id' = ''r2'',
          enabled = True, triggered = False, description = None\<rparr>
     (Decimal False 200 0)
   \<and> \<not> check \<lparr>symbol = ''AAPL'', action = BUY, condition = BELOW,
          target_price = Decimal False 17000 (- 2), quantity = 10, id' = ''test123'',
          enabled = True, triggered = True, description = None\<rparr>
     (Decimal False 150 0)"
  by (simp add: check_iff dec_val_def pow10_def)

section \<open>Properties of the safety controls\<close>

lemma check_can_trade_killed:
  "killed s \<Longrightarrow> check_can_trade s l = ((False, KillSwitchActive), [])"
  by (simp add: check_can_trade_def)

lemma check_can_trade_not_killed:
  "\<not> killed s \<Longrightarrow> snd (fst (check_can_trade s l)) \<noteq> KillSwitchActive"
  by (simp add: check_can_trade_def Let_def)

lemma killed_foldl_no_reset:
  "killed s \<Longrightarrow> \<not> list_ex is_reset cs \<Longrightarrow> killed (foldl safety_step s cs)"
proof (induction cs arbitrary: s)
  case Nil
  then show ?case by simp
next
  case (Cons c cs)
  from Cons.prems have "killed (safety_step s c)"
    by (cases c) (simp_all add: is_reset_def kill_def)
  with Cons show ?case by simp
qed

lemma not_killed_foldl_no_kill:
  "\<not> killed s \<Longrightarrow> \<not> list_ex is_kill cs \<Longrightarrow> \<not> killed (foldl safety_step s cs)"
proof (induction cs arbitrary: s)
  case Nil
  then show ?case by simp
next
  case (Cons c cs)
  from Cons.prems have "\<not> killed (safety_step s c)"
    by (cases c) (simp_all add: is_kill_def reset_def)
  with Cons show ?case by simp
qed

lemma dec_neg_500: "dec_neg 500 = - 500"
  unfolding dec_neg_def by code_simp

lemma check_order_verdict:
  "(fst (fst (check_order s b l symb q px is_buy)) \<longleftrightarrow>
      fst (fst (check_can_trade s l)) \<and>
      order_value q px \<le> max_order_value (limits s) \<and>
      q \<le> max_position_size (limits s) \<and>
      (is_buy \<longrightarrow>
         dec_add (current_value b symb) (order_value q px) \<le> max_position_value (limits s) \<and>
         order_value q px \<le> buying_power (get_account b)))
   \<and> check_order s b l symb q px is_buy =
      (if \<not> fst (fst (check_can_trade s l))
       then ((False, snd (fst (check_can_trade s l))), snd (check_can_trade s l))
       else if order_value q px > max_order_value (limits s)
       then ((False, OrderValueExceeds (order_value q px) (max_order_value (limits s))),
             snd (check_can_trade s l))
       else if q > max_position_size (limits s)
       then ((False, QuantityExceeds q (max_position_size (limits s))),
             snd (check_can_trade s l))
       else if is_buy \<and>
               dec_add (current_value b symb) (order_value q px) > max_position_value (limits s)
       then ((False, PositionValueExceeds (dec_add (current_value b symb) (order_value q px))
                       (max_position_value (limits s))),
             snd (check_can_trade s l) @ [BrokerGetPosition symb])
       else if is_buy \<and> order_value q px > buying_power (get_account b)
       then ((False, InsufficientBuyingPower (order_value q px) (buying_power (get_account b))),
             snd (check_can_trade s l) @ [BrokerGetPosition symb, BrokerGetAccount])
       else ((True, OK),
             snd (check_can_trade s l) @
               (if is_buy then [BrokerGetPosition symb, BrokerGetAccount] else [])))"
  by (cases "check_can_trade s l") (auto simp: check_order_def Let_def)

lemma order_value_exact:
  assumes "px = of_int n * pow10 e" and "\<bar>q * n\<bar> < 10 ^ 28"
  shows "order_value q px = of_int q * px"
proof -
  have "of_int q * px = of_int (q * n) * pow10 e"
    using assms(1) by simp
  moreover have "ctx_round (of_int (q * n) * pow10 e) = of_int (q * n) * pow10 e"
    using assms(2) by (rule ctx_round_exact)
  ultimately show ?thesis
    by (simp only: order_value_def dec_mul_def)
qed

lemma dec_add_exact:
  assumes "a + b = of_int m * pow10 e" and "\<bar>m\<bar> < 10 ^ 28"
  shows "dec_add a b = a + b"
proof -
  have "ctx_round (of_int m * pow10 e) = of_int m * pow10 e"
    using assms(2) by (rule ctx_round_exact)
  with assms(1) show ?thesis
    by (simp only: dec_add_def)
qed

lemma order_value_31_digits:
  "order_value 3 (1666666666666666666666666666667 / 1000000000000000000000000000) = 5000"
  unfolding order_value_def dec_mul_def by code_simp

text \<open>
  Claim C2, as stated, fails: the order value the program compares is the Decimal product,
  which is rounded to 28 significant digits, not the exact product. With the default
  limits (\<open>max_order_value\<close> 5000), a sell of 3 shares at the price
  1666.666666666666666666666666667 has the exact value 5000.000000000000000000000000001,
  above the limit, and is allowed: the product rounds to 5000.
\<close>

theorem order_value_rounding_counterexample:
  "check_order (SafetyCheck_init None)
     \<lparr>get_position = (\<lambda>k. None), get_account = \<lparr>buying_power = 0\<rparr>\<rparr>
     \<lparr>get_total_today_pnl = 0, get_trade_count_today = 0\<rparr>
     ''AAPL'' 3 (1666666666666666666666666666667 / 10 ^ 27) False
   = ((True, OK), [LedgerGetTotalTodayPnl, LedgerGetTradeCountToday])
   \<and> of_int 3 * (1666666666666666666666666666667 / 10 ^ 27)
       > max_order_value (limits (SafetyCheck_init None))"
  by (simp add: check_order_def check_can_trade_def SafetyCheck_init_def
      default_SafetyLimits_def dec_neg_500 order_value_31_digits)

text \<open>
  Claim C2, amended. \<open>check_order\<close> allows an order if and only if \<open>check_can_trade\<close>
  allows trading, the order value is at most \<open>max_order_value\<close>, the quantity is at most
  \<open>max_position_size\<close>, and, for a buy, the existing position's market value plus the
  order value is at most \<open>max_position_value\<close> and the order value is at most the
  account's buying power; here the order value is the Decimal product of quantity and
  price and the projected position value is the Decimal sum, each the exact result rounded
  to 28 significant digits. They are the exact product and the exact sum whenever these
  have at most 28 significant digits. The checks run in that order; the verdict carries
  the reason of the first check that fails, and no later check is evaluated: the broker is
  asked for the position only when the position check is reached, and for the account only
  when the buying-power check is reached.
\<close>

theorem check_order_first_failure:
  "(fst (fst (check_order s b l symb q px is_buy)) \<longleftrightarrow>
      fst (fst (check_can_trade s l)) \<and>
      order_value q px \<le> max_order_value (limits s) \<and>
      q \<le> max_position_size (limits s) \<and>
      (is_buy \<longrightarrow>
         dec_add (current_value b symb) (order_value q px) \<le> max_position_value (limits s) \<and>
         order_value q px \<le> buying_power (get_account b)))
   \<and> check_order s b l symb q px is_buy =
      (if \<not> fst (fst (check_can_trade s l))
       then ((False, snd (fst (check_can_trade s l))), snd (check_can_trade s l))
       else if order_value q px > max_order_value (limits s)
       then ((False, OrderValueExceeds (order_value q px) (max_order_value (limits s))),
             snd (check_can_trade s l))
       else if q > max_position_size (limits s)
       then ((False, QuantityExceeds q (max_position_size (limits s))),
             snd (check_can_trade s l))
       else if is_buy \<and>
               dec_add (current_value b symb) (order_value q px) > max_position_value (limits s)
       then ((False, PositionValueExceeds (dec_add (current_value b symb) (order_value q px))
                       (max_position_value (limits s))),
             snd (check_can_trade s l) @ [BrokerGetPosition symb])
       else if is_buy \<and> order_value q px > buying_power (get_account b)
       then ((False, InsufficientBuyingPower (order_value q px) (buying_power (get_account b))),
             snd (check_can_trade s l) @ [BrokerGetPosition symb, BrokerGetAccount])
       else ((True, OK),
             snd (check_can_trade s l) @
               (if is_buy then [BrokerGetPosition symb, BrokerGetAccount] else [])))
   \<and> (px = of_int n * pow10 e \<and> \<bar>q * n\<bar> < 10 ^ 28 \<longrightarrow>
        order_value q px = of_int q * px)
   \<and> (current_value b symb + order_value q px = of_int m * pow10 e' \<and> \<bar>m\<bar> < 10 ^ 28 \<longrightarrow>
        dec_add (current_value b symb) (order_value q px) =
          current_value b symb + order_value q px)"
proof -
  have "px = of_int n * pow10 e \<and> \<bar>q * n\<bar> < 10 ^ 28 \<longrightarrow> order_value q px = of_int q * px"
    using order_value_exact [of px n e q] by blast
  moreover have "current_value b symb + order_value q px = of_int m * pow10 e' \<and> \<bar>m\<bar> < 10 ^ 28 \<longrightarrow>
        dec_add (current_value b symb) (order_value q px) =
          current_value b symb + order_value q px"
    using dec_add_exact [of "current_value b symb" "order_value q px" m e'] by blast
  ultimately show ?thesis
    using check_order_verdict [of s b l symb q px is_buy] by blast
qed

lemma order_value_10_150: "order_value 10 150 = 1500"
  unfolding order_value_def dec_mul_def by code_simp

lemma dec_add_9000_1500: "dec_add 9000 1500 = 10500"
  unfolding dec_add_def by code_simp

theorem check_order_first_failure_witness:
  "check_order (SafetyCheck_init None)
     \<lparr>get_position = (\<lambda>k. if k = ''AAPL'' then Some \<lparr>market_value = 9000\<rparr> else None),
      get_account = \<lparr>buying_power = 100000\<rparr>\<rparr>
     \<lparr>get_total_today_pnl = 0, get_trade_count_today = 0\<rparr>
     ''AAPL'' 10 150 True
   = ((False, PositionValueExceeds 10500 10000),
      [LedgerGetTotalTodayPnl, LedgerGetTradeCountToday, BrokerGetPosition ''AAPL''])
   \<and> order_value 10 150 = of_int 10 * 150
   \<and> dec_add 9000 (order_value 10 150) = 9000 + order_value 10 150"
proof -
  note inst = check_order_first_failure [where s = "SafetyCheck_init None"
     and b = "\<lparr>get_position = (\<lambda>k. if k = ''AAPL'' then Some \<lparr>market_value = 9000\<rparr> else None),
      get_account = \<lparr>buying_power = 100000\<rparr>\<rparr>"
     and l = "\<lparr>get_total_today_pnl = 0, get_trade_count_today = 0\<rparr>" and symb = "''AAPL''"
     and q = 10 and px = 150 and is_buy = True and n = 150 and e = 0 and m = 10500 and e' = 0]
  have h1: "(150::rat) = of_int 150 * pow10 0 \<and> \<bar>10 * 150 :: int\<bar> < 10 ^ 28"
    by (simp add: pow10_def)
  have cv: "current_value
     \<lparr>get_position = (\<lambda>k. if k = ''AAPL'' then Some \<lparr>market_value = 9000\<rparr> else None),
      get_account = \<lparr>buying_power = 100000\<rparr>\<rparr> ''AAPL'' = 9000"
    by (simp add: current_value_def)
  have h2: "9000 + order_value 10 150 = of_int 10500 * pow10 0 \<and> \<bar>10500 :: int\<bar> < 10 ^ 28"
    by (simp add: pow10_def order_value_10_150)
  from inst h1 have a: "order_value 10 150 = of_int 10 * 150"
    by blast
  from inst h2 have b: "dec_add 9000 (order_value 10 150) = 9000 + order_value 10 150"
    unfolding cv by blast
  from inst have "check_order (SafetyCheck_init None)
     \<lparr>get_position = (\<lambda>k. if k = ''AAPL'' then Some \<lparr>market_value = 9000\<rparr> else None),
      get_account = \<lparr>buying_power = 100000\<rparr>\<rparr>
     \<lparr>get_total_today_pnl = 0, get_trade_count_today = 0\<rparr>
     ''AAPL'' 10 150 True
   = ((False, PositionValueExceeds 10500 10000),
      [LedgerGetTotalTodayPnl, LedgerGetTradeCountToday, BrokerGetPosition ''AAPL''])"
    by (simp add: check_can_trade_def SafetyCheck_init_def default_SafetyLimits_def
      dec_neg_500 order_value_10_150 dec_add_9000_1500 current_value_def)
  with a b show ?thesis by blast
qed

text \<open>
  Claim C3. Once \<open>kill\<close> has been called and \<open>reset\<close> has not been called since, every
  \<open>check_can_trade\<close> denies with the kill-switch reason, whatever the ledger's daily P&L
  and trade count are (the ledger is not even read). After \<open>reset\<close> the kill switch no
  longer blocks trading: as long as \<open>kill\<close> is not called again, no verdict carries the
  kill-switch reason.
\<close>

theorem kill_switch_latches:
  "(\<not> list_ex is_reset cs \<longrightarrow>
      check_can_trade (foldl safety_step (kill s) cs) l = ((False, KillSwitchActive), []))
   \<and> (\<not> list_ex is_kill cs' \<longrightarrow>
      snd (fst (check_can_trade (foldl safety_step (reset s') cs') l')) \<noteq> KillSwitchActive)"
proof (intro conjI impI)
  assume "\<not> list_ex is_reset cs"
  moreover have "killed (kill s)"
    by (simp add: kill_def)
  ultimately have "killed (foldl safety_step (kill s) cs)"
    by (rule killed_foldl_no_reset [rotated])
  then show "check_can_trade (foldl safety_step (kill s) cs) l = ((False, KillSwitchActive), [])"
    by (rule check_can_trade_killed)
next
  assume "\<not> list_ex is_kill cs'"
  moreover have "\<not> killed (reset s')"
    by (simp add: reset_def)
  ultimately have "\<not> killed (foldl safety_step (reset s') cs')"
    by (rule not_killed_foldl_no_kill [rotated])
  then show "snd (fst (check_can_trade (foldl safety_step (reset s') cs') l')) \<noteq> KillSwitchActive"
    by (rule check_can_trade_not_killed)
qed

theorem kill_switch_latches_witness:
  "check_can_trade
     (foldl safety_step (kill (SafetyCheck_init None))
        [CheckCanTrade \<lparr>get_total_today_pnl = - 1000, get_trade_count_today = 100\<rparr>,
         Kill,
         GetStatus \<lparr>get_total_today_pnl = - 1000, get_trade_count_today = 100\<rparr>])
     \<lparr>get_total_today_pnl = - 1000, get_trade_count_today = 100\<rparr>
     = ((False, KillSwitchActive), [])
   \<and> snd (fst (check_can_trade
        (foldl safety_step (reset (kill (SafetyCheck_init None)))
           [CheckCanTrade \<lparr>get_total_today_pnl = 0, get_trade_count_today = 0\<rparr>])
        \<lparr>get_total_today_pnl = 0, get_trade_count_today = 0\<rparr>)) \<noteq> KillSwitchActive"
  using kill_switch_latches [of
     "[CheckCanTrade \<lparr>get_total_today_pnl = - 1000, get_trade_count_today = 100\<rparr>,
       Kill,
       GetStatus \<lparr>get_total_today_pnl = - 1000, get_trade_count_today = 100\<rparr>]"
     "SafetyCheck_init None"
     "\<lparr>get_total_today_pnl = - 1000, get_trade_count_today = 100\<rparr>"
     "[CheckCanTrade \<lparr>get_total_today_pnl = 0, get_trade_count_today = 0\<rparr>]"
     "kill (SafetyCheck_init None)"
     "\<lparr>get_total_today_pnl = 0, get_trade_count_today = 0\<rparr>"]
  by (simp add: is_reset_def is_kill_def)

lemma dec_neg_exact:
  assumes "x = of_int n * pow10 e" and "\<bar>n\<bar> < 10 ^ 28"
  shows "dec_neg x = - x"
proof -
  have "- x = of_int (- n) * pow10 e"
    using assms(1) by simp
  moreover have "ctx_round (of_int (- n) * pow10 e) = of_int (- n) * pow10 e"
    using assms(2) by (intro ctx_round_exact) simp
  ultimately show ?thesis
    by (simp only: dec_neg_def)
qed

lemma dec_neg_29_digits:
  "dec_neg (50000000000000000000000000001 / 100000000000000000000000000) = - 500"
  unfolding dec_neg_def by code_simp

text \<open>
  Claim C4, as stated, fails: the bound the program compares with is the Decimal negation of
  \<open>max_daily_loss\<close>, which is rounded to 28 significant digits. With a daily-loss limit of
  500.00000000000000000000000001 (29 digits) the bound is -500, and a realised P&L of
  exactly \<open>- max_daily_loss\<close> is rejected with the daily-loss reason, the kill switch being
  inactive and the trade count 0.
\<close>

theorem daily_loss_rounding_counterexample:
  "get_total_today_pnl
      \<lparr>get_total_today_pnl = - (50000000000000000000000000001 / 10 ^ 26),
       get_trade_count_today = 0\<rparr>
     = - max_daily_loss (limits (SafetyCheck_init
          (Some (default_SafetyLimits\<lparr>max_daily_loss := 50000000000000000000000000001 / 10 ^ 26\<rparr>))))
   \<and> fst (check_can_trade
        (SafetyCheck_init
          (Some (default_SafetyLimits\<lparr>max_daily_loss := 50000000000000000000000000001 / 10 ^ 26\<rparr>)))
        \<lparr>get_total_today_pnl = - (50000000000000000000000000001 / 10 ^ 26),
         get_trade_count_today = 0\<rparr>)
     = (False, DailyLossLimit (- (50000000000000000000000000001 / 10 ^ 26)))"
  by (simp add: check_can_trade_def SafetyCheck_init_def default_SafetyLimits_def
      dec_neg_29_digits)

text \<open>
  Claim C4, amended. With the kill switch inactive and today's trade count strictly below
  \<open>max_daily_trades\<close>, \<open>check_can_trade\<close> allows trading when today's realised P&L is
  exactly the Decimal negation of \<open>max_daily_loss\<close> (\<open>dec_neg\<close>: the negation rounded to
  28 significant digits), and rejects with the daily-loss reason when it is strictly below
  that. The Decimal negation is \<open>- max_daily_loss\<close> itself whenever \<open>max_daily_loss\<close> has at
  most 28 significant digits.
\<close>

theorem daily_loss_boundary:
  assumes "\<not> killed s"
    and "get_trade_count_today l < max_daily_trades (limits s)"
  shows "(get_total_today_pnl l = dec_neg (max_daily_loss (limits s)) \<longrightarrow>
            fst (check_can_trade s l) = (True, OK))
       \<and> (get_total_today_pnl l < dec_neg (max_daily_loss (limits s)) \<longrightarrow>
            fst (check_can_trade s l) = (False, DailyLossLimit (get_total_today_pnl l)))
       \<and> (max_daily_loss (limits s) = of_int n * pow10 e \<and> \<bar>n\<bar> < 10 ^ 28 \<longrightarrow>
            dec_neg (max_daily_loss (limits s)) = - max_daily_loss (limits s))"
  using assms dec_neg_exact [of "max_daily_loss (limits s)" n e]
  by (simp add: check_can_trade_def Let_def)

theorem daily_loss_boundary_witness:
  "fst (check_can_trade (SafetyCheck_init None)
          \<lparr>get_total_today_pnl = - 500, get_trade_count_today = 49\<rparr>) = (True, OK)
   \<and> fst (check_can_trade (SafetyCheck_init None)
          \<lparr>get_total_today_pnl = - 50001 / 100, get_trade_count_today = 49\<rparr>)
       = (False, DailyLossLimit (- 50001 / 100))
   \<and> dec_neg (max_daily_loss (limits (SafetyCheck_init None)))
       = - max_daily_loss (limits (SafetyCheck_init None))"
  using daily_loss_boundary [of "SafetyCheck_init None"
          "\<lparr>get_total_today_pnl = - 500, get_trade_count_today = 49\<rparr>" 500 0]
        daily_loss_boundary [of "SafetyCheck_init None"
          "\<lparr>get_total_today_pnl = - 50001 / 100, get_trade_count_today = 49\<rparr>" 500 0]
  by (simp add: SafetyCheck_init_def default_SafetyLimits_def dec_neg_500 pow10_def)

text \<open>
  Claim C10. For a sell order the verdict and its reason depend only on the kill flag, the
  limits, the ledger's two daily aggregates, the quantity and the price: two calls that
  differ in the broker's state (positions, buying power) and in the symbol give the same
  result, and the only collaborator calls made are the two ledger reads.
\<close>

theorem sell_ignores_broker:
  "check_order s b1 l symb1 q px False = check_order s b2 l symb2 q px False
   \<and> (\<forall>c \<in> set (snd (check_order s b1 l symb1 q px False)).
        c = LedgerGetTotalTodayPnl \<or> c = LedgerGetTradeCountToday)"
  by (auto simp: check_order_def check_can_trade_def Let_def)

theorem sell_ignores_broker_witness:
  "check_order (SafetyCheck_init None)
     \<lparr>get_position = (\<lambda>k. None), get_account = \<lparr>buying_power = 0\<rparr>\<rparr>
     \<lparr>get_total_today_pnl = 0, get_trade_count_today = 0\<rparr> ''AAPL'' 50 120 False
   = check_order (SafetyCheck_init None)
     \<lparr>get_position = (\<lambda>k. Some \<lparr>market_value = 99999\<rparr>),
      get_account = \<lparr>buying_power = 1000000\<rparr>\<rparr>
     \<lparr>get_total_today_pnl = 0, get_trade_count_today = 0\<rparr> ''TSLA'' 50 120 False
   \<and> set (snd (check_order (SafetyCheck_init None)
     \<lparr>get_position = (\<lambda>k. None), get_account = \<lparr>buying_power = 0\<rparr>\<rparr>
     \<lparr>get_total_today_pnl = 0, get_trade_count_today = 0\<rparr> ''AAPL'' 50 120 False))
     \<subseteq> {LedgerGetTotalTodayPnl, LedgerGetTradeCountToday}"
  using sell_ignores_broker [of "SafetyCheck_init None"
     "\<lparr>get_position = (\<lambda>k. None), get_account = \<lparr>buying_power = 0\<rparr>\<rparr>"
     "\<lparr>get_total_today_pnl = 0, get_trade_count_today = 0\<rparr>" "''AAPL''" 50 120
     "\<lparr>get_position = (\<lambda>k. Some \<lparr>market_value = 99999\<rparr>),
      get_account = \<lparr>buying_power = 1000000\<rparr>\<rparr>" "''TSLA''"]
  by auto

section \<open>Properties of the backtest\<close>

lemma ctx_round_0: "ctx_round 0 = 0"
  by (simp add: ctx_round_def)

lemma running_peak_0: "running_peak (x # xs) 0 = x"
  by (simp add: running_peak_def)

lemma Max_insert_insert:
  fixes x :: "'a :: linorder"
  assumes "finite S"
  shows "Max (insert x (insert y S)) = Max (insert (max x y) S)"
proof (cases "S = {}")
  case True
  then show ?thesis by (simp add: max.commute)
next
  case False
  with assms show ?thesis by (simp add: max.assoc)
qed

lemma running_peak_Suc:
  "running_peak (x # y # xs) (Suc i) = running_peak (max x y # xs) i"
proof -
  have "set (take (Suc (Suc i)) (x # y # xs)) = insert x (insert y (set (take i xs)))"
    by simp
  moreover have "set (take (Suc i) (max x y # xs)) = insert (max x y) (set (take i xs))"
    by simp
  ultimately show ?thesis
    unfolding running_peak_def by (simp only: Max_insert_insert [OF finite_set])
qed

text \<open>the loop started with peak p, on the curve whose first sample is folded into p\<close>
lemma drawdown_loop_spec:
  "\<forall>i<length xs. running_peak (p # xs) (Suc i) \<noteq> 0 \<Longrightarrow>
   drawdown_loop p m xs =
     Inr (Max (insert m ((\<lambda>i. ctx_round (dec_sub (running_peak (p # xs) (Suc i)) (xs ! i)
                                      / running_peak (p # xs) (Suc i))) ` {..<length xs})))"
proof (induction xs arbitrary: p m)
  case Nil
  then show ?case by simp
next
  case (Cons x xs)
  let ?p = "max p x"
  let ?f = "\<lambda>q ys i. ctx_round (dec_sub (running_peak (q # ys) (Suc i)) (ys ! i)
                                      / running_peak (q # ys) (Suc i))"
  have pk0: "running_peak (p # x # xs) (Suc 0) = ?p"
    by (simp add: running_peak_Suc running_peak_0)
  have pk: "\<And>i. running_peak (p # x # xs) (Suc (Suc i)) = running_peak (?p # xs) (Suc i)"
    by (simp add: running_peak_Suc)
  from Cons.prems have nz0: "?p \<noteq> 0"
    using pk0 by (metis length_Cons zero_less_Suc)
  from Cons.prems have nz: "\<forall>i<length xs. running_peak (?p # xs) (Suc i) \<noteq> 0"
    using pk by (metis Suc_less_eq length_Cons)
  have peq: "(if x > p then x else p) = ?p" by (simp add: max_def)
  have step: "drawdown_loop p m (x # xs) =
      drawdown_loop ?p (max m (ctx_round (dec_sub ?p x / ?p))) xs"
    using nz0 by (simp add: peq dec_div_def Let_def max_def)
  have img: "?f p (x # xs) ` {..<length (x # xs)} =
      insert (ctx_round (dec_sub ?p x / ?p)) (?f ?p xs ` {..<length xs})"
  proof -
    have "{..<length (x # xs)} = insert 0 (Suc ` {..<length xs})"
      by (auto simp: lessThan_Suc_eq_insert_0)
    then have "?f p (x # xs) ` {..<length (x # xs)} =
        insert (?f p (x # xs) 0) ((\<lambda>i. ?f p (x # xs) (Suc i)) ` {..<length xs})"
      by (simp add: image_image)
    then show ?thesis by (simp add: pk0 pk)
  qed
  have "drawdown_loop p m (x # xs) =
      Inr (Max (insert (max m (ctx_round (dec_sub ?p x / ?p))) (?f ?p xs ` {..<length xs})))"
    unfolding step by (rule Cons.IH [OF nz])
  also have "Max (insert (max m (ctx_round (dec_sub ?p x / ?p))) (?f ?p xs ` {..<length xs}))
      = Max (insert m (?f p (x # xs) ` {..<length (x # xs)}))"
    unfolding img
    by (cases "?f ?p xs ` {..<length xs} = {}") (simp_all add: max.assoc)
  finally show ?case .
qed


lemma drawdown_loop_Inr_nonzero:
  "drawdown_loop p m xs = Inr r \<Longrightarrow> \<forall>i<length xs. running_peak (p # xs) (Suc i) \<noteq> 0"
proof (induction xs arbitrary: p m)
  case Nil
  then show ?case by simp
next
  case (Cons x xs)
  have peq: "(if x > p then x else p) = max p x" by (simp add: max_def)
  from Cons.prems have nz0: "max p x \<noteq> 0"
    by (auto simp: peq dec_div_def Let_def split: if_splits)
  with Cons.prems obtain m' where "drawdown_loop (max p x) m' xs = Inr r"
    by (auto simp: peq dec_div_def Let_def split: if_splits)
  then have IH: "\<forall>i<length xs. running_peak (max p x # xs) (Suc i) \<noteq> 0"
    by (rule Cons.IH)
  show ?case
  proof (intro allI impI)
    fix i assume "i < length (x # xs)"
    then show "running_peak (p # x # xs) (Suc i) \<noteq> 0"
      using nz0 IH by (cases i) (simp_all add: running_peak_Suc running_peak_0)
  qed
qed

lemma running_peak_dup: "running_peak (c # c # cs) (Suc i) = running_peak (c # cs) i"
  by (simp add: running_peak_Suc)

lemma drawdown_at_0: "drawdown_at (c # cs) 0 = 0"
  by (simp add: drawdown_at_def running_peak_0 dec_sub_def ctx_round_0)

lemma calc_max_drawdown_spec:
  assumes "\<forall>i<length (c # cs). running_peak (c # cs) i \<noteq> 0"
  shows "calc_max_drawdown (c # cs) = Inr (spec_max_drawdown (c # cs))"
proof -
  let ?xs = "c # cs"
  from assms have nz: "\<forall>i<length ?xs. running_peak (c # ?xs) (Suc i) \<noteq> 0"
    by (simp only: running_peak_dup) 
  have "calc_max_drawdown ?xs = drawdown_loop c 0 ?xs"
    by (simp add: calc_max_drawdown_def)
  also have "\<dots> = Inr (Max (insert 0 (drawdown_at ?xs ` {..<length ?xs})))"
    unfolding drawdown_loop_spec [OF nz] running_peak_dup drawdown_at_def ..
  also have "insert 0 (drawdown_at ?xs ` {..<length ?xs}) = drawdown_at ?xs ` {..<length ?xs}"
  proof -
    have "drawdown_at ?xs 0 \<in> drawdown_at ?xs ` {..<length ?xs}"
      by (rule imageI) simp
    then show ?thesis by (auto simp: drawdown_at_0)
  qed
  finally show ?thesis by (simp only: spec_max_drawdown_def)
qed

lemma calc_max_drawdown_Inr:
  assumes "calc_max_drawdown curve = Inr m"
  shows "m = spec_max_drawdown curve"
proof (cases curve)
  case Nil
  with assms show ?thesis by (simp add: calc_max_drawdown_def)
next
  case (Cons c cs)
  with assms have "drawdown_loop c 0 (c # cs) = Inr m"
    by (simp add: calc_max_drawdown_def)
  then have "\<forall>i<length (c # cs). running_peak (c # c # cs) (Suc i) \<noteq> 0"
    by (rule drawdown_loop_Inr_nonzero)
  then have "\<forall>i<length (c # cs). running_peak (c # cs) i \<noteq> 0"
    by (simp only: running_peak_dup)
  then have "calc_max_drawdown (c # cs) = Inr (spec_max_drawdown (c # cs))"
    by (rule calc_max_drawdown_spec)
  with assms Cons show ?thesis by simp
qed

lemma running_peak_pos:
  assumes "0 < c" and "i < length (c # cs)"
  shows "running_peak (c # cs) i \<noteq> 0"
proof -
  have "c \<in> set (take (Suc i) (c # cs))" by simp
  then have "c \<le> running_peak (c # cs) i"
    unfolding running_peak_def by (intro Max_ge) simp_all
  with assms show ?thesis by simp
qed

lemma day_step_curve:
  "day_step env sd syms rs d = Inr rs' \<Longrightarrow>
   \<exists>e. rs_equity_curve rs' = rs_equity_curve rs @ [e]"
  by (auto simp: day_step_def Let_def split: sum.splits prod.splits)

lemma simulate_days_curve:
  "simulate_days env sd syms rs ds = Inr rs' \<Longrightarrow>
   \<exists>es. rs_equity_curve rs' = rs_equity_curve rs @ es \<and> length es = length ds"
proof (induction ds arbitrary: rs)
  case Nil
  then show ?case by simp
next
  case (Cons d ds)
  from Cons.prems obtain rs1 where
    1: "day_step env sd syms rs d = Inr rs1" and 2: "simulate_days env sd syms rs1 ds = Inr rs'"
    by (auto split: sum.splits)
  from day_step_curve [OF 1] obtain e where e: "rs_equity_curve rs1 = rs_equity_curve rs @ [e]" ..
  from Cons.IH [OF 2] obtain es where
    "rs_equity_curve rs' = rs_equity_curve rs1 @ es" "length es = length ds" by blast
  with e have "rs_equity_curve rs' = rs_equity_curve rs @ (e # es) \<and> length (e # es) = length (d # ds)"
    by simp
  then show ?case by blast
qed

lemma run_Inr_D:
  assumes "run self env rules days = Inr (res, rules')"
  shows "\<exists>rs. simulate_days env (now_start env - of_int days) (remdups (map symbol rules))
                (initial_run_state self env rules) [0..<nat days] = Inr rs
              \<and> final_metrics self env (now_start env - of_int days) (now_end env) rs = Inr res
              \<and> rules' = rs_rules rs \<and> rules \<noteq> []"
  using assms
  by (auto simp: run_def timedelta_def datetime_sub_def datetime_add_def Let_def
      split: if_splits sum.splits)

lemma final_metrics_Inr_D:
  assumes "final_metrics self env sd ed rs = Inr res"
  shows "calc_max_drawdown (rs_equity_curve rs) = Inr (max_drawdown res)
       \<and> trades res = st_trades (rs_sim rs)
       \<and> (winning_trades res, losing_trades res) = pair_trades Map.empty 0 0 (st_trades (rs_sim rs))
       \<and> calc_win_rate (winning_trades res) (losing_trades res) = Inr (win_rate res)"
  using assms
  by (auto simp: final_metrics_def Let_def split: if_splits sum.splits prod.splits)

lemma run_equity_curve:
  assumes "run self env rules days = Inr (res, rules')"
  shows "calc_max_drawdown (equity_curve_of self env rules days) = Inr (max_drawdown res)
       \<and> (\<exists>es. equity_curve_of self env rules days = initial_capital self # es
                \<and> length es = nat days)"
proof -
  from run_Inr_D [OF assms] obtain rs where
    sim: "simulate_days env (now_start env - of_int days) (remdups (map symbol rules))
                (initial_run_state self env rules) [0..<nat days] = Inr rs"
    and fm: "final_metrics self env (now_start env - of_int days) (now_end env) rs = Inr res"
    by blast
  have eq: "equity_curve_of self env rules days = rs_equity_curve rs"
    by (simp add: equity_curve_of_def sim)
  from simulate_days_curve [OF sim] obtain es where
    "rs_equity_curve rs = rs_equity_curve (initial_run_state self env rules) @ es"
    "length es = length [0..<nat days]" by blast
  then have "rs_equity_curve rs = initial_capital self # es \<and> length es = nat days"
    by (simp add: initial_run_state_def)
  with final_metrics_Inr_D [OF fm] eq show ?thesis by auto
qed
lemma queue_of_upd: "queue_of (bp(s \<mapsto> q)) s' = (if s' = s then q else queue_of bp s')"
  by (simp add: queue_of_def)

lemma wins_Cons: "wins (pr # prs) = (if is_win pr then 1 else 0) + wins prs"
  by (simp add: wins_def)

lemma losses_Cons: "losses (pr # prs) = (if is_win pr then 0 else 1) + losses prs"
  by (simp add: losses_def)

lemma sum_delta_add:
  fixes f :: "string \<Rightarrow> int"
  assumes "finite S" and "a \<in> S"
  shows "(\<Sum>s\<in>S. (if s = a then c else 0) + f s) = c + sum f S"
  using assms by (simp add: sum.distrib)

lemma pair_trades_spec:
  assumes "finite S" and "set (map symbol' ts) \<subseteq> S"
  shows "pair_trades bp w l ts =
           (w + (\<Sum>s\<in>S. wins (fifo_pairs (queue_of bp s) (trades_of s ts))),
            l + (\<Sum>s\<in>S. losses (fifo_pairs (queue_of bp s) (trades_of s ts))))"
  using assms(2)
proof (induction ts arbitrary: bp w l)
  case Nil
  then show ?case by (simp add: trades_of_def wins_def losses_def)
next
  case (Cons t ts)
  let ?a = "symbol' t"
  from Cons.prems have aS: "?a \<in> S" and sub: "set (map symbol' ts) \<subseteq> S" by simp_all
  note IH = Cons.IH [OF sub]
  have tr: "\<And>s. trades_of s (t # ts) = (if s = ?a then t # trades_of s ts else trades_of s ts)"
    by (auto simp: trades_of_def)
  show ?case
  proof (cases "side t = ''buy''")
    case True
    let ?bp = "bp(?a \<mapsto> queue_of bp ?a @ [price t])"
    have pt: "\<And>s. fifo_pairs (queue_of bp s) (trades_of s (t # ts)) =
                   fifo_pairs (queue_of ?bp s) (trades_of s ts)"
      using True by (simp add: tr queue_of_upd)
    have "pair_trades bp w l (t # ts) = pair_trades ?bp w l ts"
      using True by (simp add: queue_of_def)
    then show ?thesis by (simp only: IH pt)
  next
    case nb: False
    show ?thesis
    proof (cases "side t = ''sell''")
      case False
      have pt: "\<And>s. fifo_pairs (queue_of bp s) (trades_of s (t # ts)) =
                   fifo_pairs (queue_of bp s) (trades_of s ts)"
        using nb False by (simp add: tr)
      have "pair_trades bp w l (t # ts) = pair_trades bp w l ts"
        using nb False by simp
      then show ?thesis by (simp only: IH pt)
    next
      case True
      show ?thesis
      proof (cases "queue_of bp ?a")
        case Nil
        have pt: "\<And>s. fifo_pairs (queue_of bp s) (trades_of s (t # ts)) =
                   fifo_pairs (queue_of bp s) (trades_of s ts)"
          using nb True Nil by (simp add: tr)
        have "pair_trades bp w l (t # ts) = pair_trades bp w l ts"
          using nb True Nil by (simp add: queue_of_def split: option.splits list.splits)
        then show ?thesis by (simp only: IH pt)
      next
        case (Cons b bs)
        let ?bp = "bp(?a \<mapsto> bs)"
        have bpa: "bp ?a = Some (b # bs)"
          using Cons by (simp add: queue_of_def split: option.splits)
        have pt: "\<And>s. fifo_pairs (queue_of bp s) (trades_of s (t # ts)) =
                   (if s = ?a then [(b, price t)] else []) @ fifo_pairs (queue_of ?bp s) (trades_of s ts)"
          using nb True Cons by (simp add: tr queue_of_upd)
        have wpt: "\<And>s. wins (fifo_pairs (queue_of bp s) (trades_of s (t # ts))) =
                   (if s = ?a then (if price t > b then 1 else 0) else 0)
                     + wins (fifo_pairs (queue_of ?bp s) (trades_of s ts))"
          unfolding pt by (simp add: wins_Cons is_win_def)
        have lpt: "\<And>s. losses (fifo_pairs (queue_of bp s) (trades_of s (t # ts))) =
                   (if s = ?a then (if price t > b then 0 else 1) else 0)
                     + losses (fifo_pairs (queue_of ?bp s) (trades_of s ts))"
          unfolding pt by (simp add: losses_Cons is_win_def)
        define A where "A = (\<Sum>s\<in>S. wins (fifo_pairs (queue_of ?bp s) (trades_of s ts)))"
        define B where "B = (\<Sum>s\<in>S. losses (fifo_pairs (queue_of ?bp s) (trades_of s ts)))"
        have IH': "\<And>w l. pair_trades ?bp w l ts = (w + A, l + B)"
          unfolding A_def B_def by (rule IH)
        have rhs: "(w + (\<Sum>s\<in>S. wins (fifo_pairs (queue_of bp s) (trades_of s (t # ts)))),
                    l + (\<Sum>s\<in>S. losses (fifo_pairs (queue_of bp s) (trades_of s (t # ts))))) =
                   (w + ((if price t > b then 1 else 0) + A),
                    l + ((if price t > b then 0 else 1) + B))"
          unfolding wpt lpt sum_delta_add [OF assms(1) aS] A_def B_def ..
        have step: "pair_trades bp w l (t # ts) =
                (if price t > b then pair_trades ?bp (w + 1) l ts
                 else pair_trades ?bp w (l + 1) ts)"
          using nb True bpa by simp
        have lhs: "pair_trades bp w l (t # ts) =
                (if price t > b then (w + 1 + A, l + B) else (w + A, l + 1 + B))"
          unfolding step IH' ..
        show ?thesis unfolding rhs lhs by simp
      qed
    qed
  qed
qed

lemma pair_trades_empty:
  "pair_trades Map.empty 0 0 ts = (spec_winning ts, spec_losing ts)"
proof -
  have "pair_trades Map.empty 0 0 ts =
           (0 + (\<Sum>s\<in>set (map symbol' ts). wins (fifo_pairs (queue_of Map.empty s) (trades_of s ts))),
            0 + (\<Sum>s\<in>set (map symbol' ts). losses (fifo_pairs (queue_of Map.empty s) (trades_of s ts))))"
    by (rule pair_trades_spec) simp_all
  then show ?thesis by (simp add: spec_winning_def spec_losing_def queue_of_def)
qed

lemma fifo_pairs_oldest_first:
  "map fst (fifo_pairs q ts) =
     take (length (fifo_pairs q ts)) (q @ map price (filter (\<lambda>t. side t = ''buy'') ts))"
proof (induction ts arbitrary: q)
  case Nil
  then show ?case by simp
next
  case (Cons t ts)
  show ?case
  proof (cases q)
    case Nil
    then show ?thesis using Cons.IH [of "[]"] Cons.IH [of "[price t]"] by simp
  next
    case (Cons b bs)
    then show ?thesis
      using Cons.IH [of "q @ [price t]"] Cons.IH [of bs] Cons.IH [of q] by simp
  qed
qed


lemma ctx_round_values:
  "ctx_round 1 = 1" "ctx_round 10 = 10" "ctx_round 100 = 100" "ctx_round (9 / 10) = 9 / 10"
  "ctx_round 90 = 90" "ctx_round 1000 = 1000" "ctx_round 99000 = 99000"
  "ctx_round 100000 = 100000" "ctx_round 900 = 900" "ctx_round 98100 = 98100"
  "ctx_round 1900 = 1900" "ctx_round 95 = 95" "ctx_round 1800 = 1800"
  "ctx_round 99900 = 99900" "ctx_round 97200 = 97200" "ctx_round 2800 = 2800"
  "ctx_round (280 / 3) = 9333333333333333333333333333 / 10 ^ 26"
  "ctx_round 2700 = 2700" "ctx_round (- 100) = - 100"
  "ctx_round (- (1 / 1000)) = - (1 / 1000)" "ctx_round (1 / 1000) = 1 / 1000"
  "ctx_round (11 / 10) = 11 / 10" "ctx_round 110 = 110" "ctx_round 1100 = 1100"
  "ctx_round 100100 = 100100"
  "ctx_round 99 = 99" "ctx_round 990 = 990" "ctx_round 99100 = 99100"
  "ctx_round 98110 = 98110" "ctx_round 1890 = 1890" "ctx_round (189 / 2) = 189 / 2"
  "ctx_round 945 = 945" "ctx_round 1935 = 1935" "ctx_round (387 / 4) = 387 / 4"
  "ctx_round 100090 = 100090" "ctx_round (9 / 10000) = 9 / 10000"
  by code_simp+

lemma win_rate_values:
  "Decimal_of_float_str (float_round 1) = 1"
  "Decimal_of_float_str (float_round (1 / 3)) = 3333333333333333 / 10 ^ 16"
  by code_simp+

lemmas weak_congs = if_weak_cong sum.case_cong_weak option.case_cong_weak prod.case_cong_weak
  list.case_cong_weak RuleAction.case_cong_weak

lemmas dec_ops = dec_add_def dec_sub_def dec_mul_def dec_div_def dec_neg_def dec_val_def pow10_def

lemmas run_defs = run_def equity_curve_of_def initial_run_state_def example_env_def
  example_buy_rule_def example_sell_rule_def day_step_def rule_step_def fire_rule_def
  rule_triggers_def
  buy_fill_def sell_fill_def final_metrics_def calc_max_drawdown_def calc_win_rate_def
  timedelta_def datetime_sub_def datetime_add_def datetime_min_def datetime_end_def
  int_true_div_def

lemma upt_3: "[0..<3] = [0, 1, 2]"
  by code_simp

lemma upt_4: "[0..<4] = [0, 1, 2, 3]"
  by code_simp

lemma example_run_down:
  "run \<lparr>initial_capital = 100000\<rparr> (example_env (- 1 / 10)) [example_buy_rule] 3 =
     Inr (example_result_down, [example_buy_rule])"
  by (simp add: run_defs example_result_down_def upt_3 dec_ops ctx_round_values ctx_round_0
      Let_def cong: weak_congs)

lemma example_run_up:
  "run \<lparr>initial_capital = 100000\<rparr> (example_env (1 / 10)) [example_buy_rule, example_sell_rule] 3 =
     Inr (example_result_up, [example_buy_rule, example_sell_rule])"
  by (simp add: run_defs example_result_up_def upt_3 dec_ops ctx_round_values ctx_round_0
      win_rate_values Let_def cong: weak_congs)

lemma example_curve_down:
  "equity_curve_of \<lparr>initial_capital = 100000\<rparr> (example_env (- 1 / 10)) [example_buy_rule] 3 =
     [100000, 100000, 99900, 99900]"
  by (simp add: run_defs upt_3 dec_ops ctx_round_values ctx_round_0 Let_def cong: weak_congs)

lemma example_drawdown:
  "calc_max_drawdown [100000, 110000, 90000, 95000] = Inr (ctx_round (20000 / 110000))"
  by code_simp

lemma example_drawdown_value:
  "ctx_round (20000 / 110000) = 1818181818181818181818181818 / 10 ^ 28"
  by code_simp

lemma example_pairing:
  "pair_trades Map.empty 0 0
     [example_trade ''buy'' 100, example_trade ''buy'' 110,
      example_trade ''sell'' 105, example_trade ''sell'' 120] = (2, 0)"
  by code_simp

text \<open>
  Claim C7. The maximum drawdown of a backtest is the largest value of
  \<open>(peak - value) / peak\<close> over the equity curve, where the peak is the running maximum of
  the curve up to that sample and the curve starts with the initial capital. The loop
  computes it whenever no running peak is zero (a zero peak makes the division raise).
  For the curve 100000, 110000, 90000, 95000 it is 20000 / 110000, which in the program's
  28-digit arithmetic is 0.1818181818181818181818181818.
\<close>

theorem max_drawdown_largest_decline:
  "(curve \<noteq> [] \<and> (\<forall>i<length curve. running_peak curve i \<noteq> 0) \<longrightarrow>
      calc_max_drawdown curve = Inr (spec_max_drawdown curve))
   \<and> (run self env rules days = Inr (res, rules') \<longrightarrow>
        (\<exists>es. equity_curve_of self env rules days = initial_capital self # es
              \<and> length es = nat days)
        \<and> max_drawdown res = spec_max_drawdown (equity_curve_of self env rules days))
   \<and> calc_max_drawdown [100000, 110000, 90000, 95000] = Inr (ctx_round (20000 / 110000))
   \<and> ctx_round (20000 / 110000) = 1818181818181818181818181818 / 10 ^ 28"
proof (intro conjI impI)
  assume a: "curve \<noteq> [] \<and> (\<forall>i<length curve. running_peak curve i \<noteq> 0)"
  then obtain c cs where c: "curve = c # cs"
    by (cases curve) simp_all
  with a have "\<forall>i<length (c # cs). running_peak (c # cs) i \<noteq> 0"
    by simp
  then show "calc_max_drawdown curve = Inr (spec_max_drawdown curve)"
    unfolding c by (rule calc_max_drawdown_spec)
next
  assume r: "run self env rules days = Inr (res, rules')"
  from run_equity_curve [OF r]
  show "\<exists>es. equity_curve_of self env rules days = initial_capital self # es \<and> length es = nat days"
    by blast
  from run_equity_curve [OF r]
  have "calc_max_drawdown (equity_curve_of self env rules days) = Inr (max_drawdown res)"
    by blast
  then show "max_drawdown res = spec_max_drawdown (equity_curve_of self env rules days)"
    by (rule calc_max_drawdown_Inr)
next
  show "calc_max_drawdown [100000, 110000, 90000, 95000] = Inr (ctx_round (20000 / 110000))"
    by (rule example_drawdown)
next
  show "ctx_round (20000 / 110000) = 1818181818181818181818181818 / 10 ^ 28"
    by (rule example_drawdown_value)
qed

theorem max_drawdown_largest_decline_witness:
  "calc_max_drawdown [100000, 110000, 90000, 95000] =
     Inr (spec_max_drawdown [100000, 110000, 90000, 95000])
   \<and> spec_max_drawdown [100000, 100000, 99900, 99900] = 1 / 1000"
proof -
  have ne: "[100000, 110000, 90000, 95000 :: rat] \<noteq> []"
    by simp
  have nz: "\<forall>i<length [100000, 110000, 90000, 95000 :: rat].
              running_peak [100000, 110000, 90000, 95000] i \<noteq> 0"
    by (intro allI impI running_peak_pos) simp_all
  note inst = max_drawdown_largest_decline
    [of "[100000, 110000, 90000, 95000]" "\<lparr>initial_capital = 100000\<rparr>" "example_env (- 1 / 10)"
        "[example_buy_rule]" 3 example_result_down "[example_buy_rule]"]
  from inst ne nz
  have a: "calc_max_drawdown [100000, 110000, 90000, 95000] =
             Inr (spec_max_drawdown [100000, 110000, 90000, 95000])"
    by blast
  from inst example_run_down
  have "max_drawdown example_result_down =
          spec_max_drawdown (equity_curve_of \<lparr>initial_capital = 100000\<rparr>
            (example_env (- 1 / 10)) [example_buy_rule] 3)"
    by blast
  then have "max_drawdown example_result_down = spec_max_drawdown [100000, 100000, 99900, 99900]"
    by (simp only: example_curve_down)
  then have b: "spec_max_drawdown [100000, 100000, 99900, 99900] = 1 / 1000"
    by (simp add: example_result_down_def)
  from a b show ?thesis ..
qed

lemma calc_win_rate_Inr:
  "calc_win_rate w l = Inr v \<Longrightarrow>
   v = (if w + l > 0 then Decimal_of_float_str (float_round (of_int w / of_int (w + l))) else 0)"
  by (auto simp: calc_win_rate_def int_true_div_def Let_def split: if_splits)

lemma spec_winning_nonneg: "0 \<le> spec_winning ts"
  by (simp add: spec_winning_def wins_def sum_nonneg)

lemma spec_losing_nonneg: "0 \<le> spec_losing ts"
  by (simp add: spec_losing_def losses_def sum_nonneg)

lemma example_run_swing:
  "run \<lparr>initial_capital = 100000\<rparr> example_env_swing [example_buy_rule, example_sell_95_rule] 4 =
     Inr (example_result_swing, [example_buy_rule, example_sell_95_rule])"
  by (simp add: run_defs example_env_swing_def example_sell_95_rule_def example_result_swing_def
      upt_4 dec_ops ctx_round_values ctx_round_0 win_rate_values Let_def cong: weak_congs)

text \<open>
  Claim C6, as stated, fails in its sentence on the win rate: the program divides the two
  counts in binary floating point and takes the Decimal of the printed float, which is not
  the quotient itself. A run of four days with one buy rule and one sell rule, the price
  going 100, 90, 99, 99, makes seven trades and three pairs, one winning and two losing;
  its win rate is 0.3333333333333333 and not 1/3.
\<close>

theorem win_rate_float_counterexample:
  "run \<lparr>initial_capital = 100000\<rparr> example_env_swing [example_buy_rule, example_sell_95_rule] 4 =
     Inr (example_result_swing, [example_buy_rule, example_sell_95_rule])
   \<and> winning_trades example_result_swing = 1
   \<and> losing_trades example_result_swing = 2
   \<and> win_rate example_result_swing = 3333333333333333 / 10 ^ 16
   \<and> win_rate example_result_swing \<noteq>
       of_int (winning_trades example_result_swing) /
       of_int (winning_trades example_result_swing + losing_trades example_result_swing)"
proof -
  have "winning_trades example_result_swing = 1
   \<and> losing_trades example_result_swing = 2
   \<and> win_rate example_result_swing = 3333333333333333 / 10 ^ 16
   \<and> win_rate example_result_swing \<noteq>
       of_int (winning_trades example_result_swing) /
       of_int (winning_trades example_result_swing + losing_trades example_result_swing)"
    by (simp add: example_result_swing_def)
  with example_run_swing show ?thesis by blast
qed

text \<open>
  Claim C6, amended. The backtest pairs sells with buys per symbol, first in first out:
  each sell consumes the oldest not yet consumed earlier buy of its symbol, and the pair is
  winning if and only if the sell price is strictly greater than the buy price, otherwise
  losing. The consumed buys of a symbol are its buys in their order. The win rate is the
  quotient of the winning count by the number of completed pairs as binary floating point
  gives it (the double nearest to the quotient, in the shortest decimal form that reads
  back as that double): it differs from winning/(winning+losing) by at most that quotient
  divided by \<open>10 ^ 15\<close>, and it is 0 when there is no completed pair. For one symbol and the
  trades buy at 100, buy at 110, sell at 105, sell at 120, the counts are 2 winning and 0
  losing.
\<close>

theorem fifo_pairing:
  "pair_trades Map.empty 0 0 ts = (spec_winning ts, spec_losing ts)
   \<and> map fst (fifo_pairs [] (trades_of s ts)) =
       take (length (fifo_pairs [] (trades_of s ts)))
         (map price (filter (\<lambda>t. side t = ''buy'') (trades_of s ts)))
   \<and> (run self env rules days = Inr (res, rules') \<longrightarrow>
        winning_trades res = spec_winning (trades res)
        \<and> losing_trades res = spec_losing (trades res)
        \<and> win_rate res =
            (if spec_winning (trades res) + spec_losing (trades res) > 0
             then Decimal_of_float_str (float_round
                    (of_int (spec_winning (trades res)) /
                     of_int (spec_winning (trades res) + spec_losing (trades res))))
             else 0)
        \<and> (spec_winning (trades res) + spec_losing (trades res) > 0 \<longrightarrow>
             \<bar>win_rate res -
                of_int (spec_winning (trades res)) /
                of_int (spec_winning (trades res) + spec_losing (trades res))\<bar>
             \<le> of_int (spec_winning (trades res)) /
                of_int (spec_winning (trades res) + spec_losing (trades res)) / 10 ^ 15)
        \<and> (spec_winning (trades res) + spec_losing (trades res) = 0 \<longrightarrow> win_rate res = 0))
   \<and> pair_trades Map.empty 0 0
        [example_trade ''buy'' 100, example_trade ''buy'' 110,
         example_trade ''sell'' 105, example_trade ''sell'' 120] = (2, 0)"
proof (intro conjI impI)
  show "pair_trades Map.empty 0 0 ts = (spec_winning ts, spec_losing ts)"
    by (rule pair_trades_empty)
next
  show "map fst (fifo_pairs [] (trades_of s ts)) =
       take (length (fifo_pairs [] (trades_of s ts)))
         (map price (filter (\<lambda>t. side t = ''buy'') (trades_of s ts)))"
    using fifo_pairs_oldest_first [of "[]" "trades_of s ts"] by simp
next
  assume r: "run self env rules days = Inr (res, rules')"
  let ?W = "spec_winning (trades res)"
  let ?L = "spec_losing (trades res)"
  from run_Inr_D [OF r] obtain rs where
    fm: "final_metrics self env (now_start env - of_int days) (now_end env) rs = Inr res"
    by blast
  note D = final_metrics_Inr_D [OF fm]
  from D have pt: "(winning_trades res, losing_trades res) = pair_trades Map.empty 0 0 (trades res)"
    by simp
  then have wl: "winning_trades res = ?W" "losing_trades res = ?L"
    by (simp_all add: pair_trades_empty)
  show "winning_trades res = ?W" by (rule wl)
  show "losing_trades res = ?L" by (rule wl)
  from D have "calc_win_rate (winning_trades res) (losing_trades res) = Inr (win_rate res)"
    by simp
  then have "calc_win_rate ?W ?L = Inr (win_rate res)"
    by (simp only: wl)
  then show wr: "win_rate res =
            (if ?W + ?L > 0
             then Decimal_of_float_str (float_round (of_int ?W / of_int (?W + ?L)))
             else 0)"
    by (rule calc_win_rate_Inr)
  {
    assume pos: "?W + ?L > 0"
    have "0 \<le> (of_int ?W :: rat) / of_int (?W + ?L)"
      using pos spec_winning_nonneg [of "trades res"] by simp
    then have "\<bar>(of_int ?W :: rat) / of_int (?W + ?L)\<bar> = of_int ?W / of_int (?W + ?L)"
      by (rule abs_of_nonneg)
    moreover from wr pos have "win_rate res =
        Decimal_of_float_str (float_round (of_int ?W / of_int (?W + ?L)))"
      by simp
    ultimately show "\<bar>win_rate res - of_int ?W / of_int (?W + ?L)\<bar>
        \<le> of_int ?W / of_int (?W + ?L) / 10 ^ 15"
      using float_quotient_error [of "of_int ?W / of_int (?W + ?L)"] by simp
  }
  {
    assume "?W + ?L = 0"
    with wr show "win_rate res = 0" by simp
  }
next
  show "pair_trades Map.empty 0 0
        [example_trade ''buy'' 100, example_trade ''buy'' 110,
         example_trade ''sell'' 105, example_trade ''sell'' 120] = (2, 0)"
    by (rule example_pairing)
qed

theorem fifo_pairing_witness:
  "spec_winning
     [example_trade ''buy'' 100, example_trade ''buy'' 110,
      example_trade ''sell'' 105, example_trade ''sell'' 120] = 2
   \<and> spec_losing
     [example_trade ''buy'' 100, example_trade ''buy'' 110,
      example_trade ''sell'' 105, example_trade ''sell'' 120] = 0
   \<and> spec_winning (trades example_result_up) = 1
   \<and> spec_losing (trades example_result_up) = 0
   \<and> spec_winning (trades example_result_swing) = 1
   \<and> spec_losing (trades example_result_swing) = 2
   \<and> \<bar>win_rate example_result_swing - 1 / 3\<bar> \<le> 1 / 3 / 10 ^ 15
   \<and> spec_winning (trades example_result_down) + spec_losing (trades example_result_down) = 0
   \<and> win_rate example_result_down = 0"
proof -
  note inst = fifo_pairing
    [of "[example_trade ''buy'' 100, example_trade ''buy'' 110,
          example_trade ''sell'' 105, example_trade ''sell'' 120]" "''AAPL''"
        "\<lparr>initial_capital = 100000\<rparr>" "example_env (1 / 10)"
        "[example_buy_rule, example_sell_rule]" 3 example_result_up
        "[example_buy_rule, example_sell_rule]"]
  note inst_swing = fifo_pairing
    [of "[]" "''AAPL''"
        "\<lparr>initial_capital = 100000\<rparr>" example_env_swing
        "[example_buy_rule, example_sell_95_rule]" 4 example_result_swing
        "[example_buy_rule, example_sell_95_rule]"]
  note inst_down = fifo_pairing
    [of "[]" "''AAPL''"
        "\<lparr>initial_capital = 100000\<rparr>" "example_env (- 1 / 10)"
        "[example_buy_rule]" 3 example_result_down "[example_buy_rule]"]
  from inst have "(spec_winning
     [example_trade ''buy'' 100, example_trade ''buy'' 110,
      example_trade ''sell'' 105, example_trade ''sell'' 120],
     spec_losing
     [example_trade ''buy'' 100, example_trade ''buy'' 110,
      example_trade ''sell'' 105, example_trade ''sell'' 120]) = (2, 0)"
    by metis
  then have a: "spec_winning
     [example_trade ''buy'' 100, example_trade ''buy'' 110,
      example_trade ''sell'' 105, example_trade ''sell'' 120] = 2
   \<and> spec_losing
     [example_trade ''buy'' 100, example_trade ''buy'' 110,
      example_trade ''sell'' 105, example_trade ''sell'' 120] = 0"
    by simp
  from inst example_run_up
  have "winning_trades example_result_up = spec_winning (trades example_result_up)
      \<and> losing_trades example_result_up = spec_losing (trades example_result_up)"
    by blast
  then have b: "spec_winning (trades example_result_up) = 1
      \<and> spec_losing (trades example_result_up) = 0"
    by (simp add: example_result_up_def)
  from inst_swing example_run_swing
  have "winning_trades example_result_swing = spec_winning (trades example_result_swing)
      \<and> losing_trades example_result_swing = spec_losing (trades example_result_swing)"
    by blast
  then have c: "spec_winning (trades example_result_swing) = 1"
      "spec_losing (trades example_result_swing) = 2"
    by (simp_all add: example_result_swing_def)
  from inst_swing example_run_swing
  have "spec_winning (trades example_result_swing) + spec_losing (trades example_result_swing) > 0 \<longrightarrow>
             \<bar>win_rate example_result_swing -
                of_int (spec_winning (trades example_result_swing)) /
                of_int (spec_winning (trades example_result_swing)
                        + spec_losing (trades example_result_swing))\<bar>
             \<le> of_int (spec_winning (trades example_result_swing)) /
                of_int (spec_winning (trades example_result_swing)
                        + spec_losing (trades example_result_swing)) / 10 ^ 15"
    by blast
  then have d: "\<bar>win_rate example_result_swing - 1 / 3\<bar> \<le> 1 / 3 / 10 ^ 15"
    unfolding c by simp
  from inst_down example_run_down
  have "winning_trades example_result_down = spec_winning (trades example_result_down)
      \<and> losing_trades example_result_down = spec_losing (trades example_result_down)"
    by blast
  then have e: "spec_winning (trades example_result_down) + spec_losing (trades example_result_down) = 0"
    by (simp add: example_result_down_def)
  from inst_down example_run_down
  have "spec_winning (trades example_result_down) + spec_losing (trades example_result_down) = 0
      \<longrightarrow> win_rate example_result_down = 0"
    by blast
  with e have f: "win_rate example_result_down = 0"
    by blast
  from a b c d e f show ?thesis by blast
qed

lemma fire_rule_rule:
  "fire_rule d st r cp = Inr (st', r') \<Longrightarrow> r' = r"
  by (auto simp: fire_rule_def split: RuleAction.splits sum.splits)

lemma rule_step_rule:
  "rule_step d pr st r = Inr (st', r') \<Longrightarrow> r' = r"
  by (auto simp: rule_step_def dest: fire_rule_rule split: if_splits option.splits)

lemma check_rules_rules:
  "check_rules d pr st rs = Inr (st', rs') \<Longrightarrow> rs' = rs"
proof (induction rs arbitrary: st st' rs')
  case Nil
  then show ?case by simp
next
  case (Cons r rs)
  from Cons.prems obtain st1 r1 st2 rs2 where
    1: "rule_step d pr st r = Inr (st1, r1)" and
    2: "check_rules d pr st1 rs = Inr (st2, rs2)" and
    3: "rs' = r1 # rs2"
    by (auto split: sum.splits prod.splits)
  from rule_step_rule [OF 1] Cons.IH [OF 2] 3 show ?case by simp
qed

lemma day_step_rules:
  "day_step env sd syms rs d = Inr rs' \<Longrightarrow> rs_rules rs' = rs_rules rs"
  by (auto simp: day_step_def Let_def dest: check_rules_rules split: sum.splits prod.splits)

lemma simulate_days_rules:
  "simulate_days env sd syms rs ds = Inr rs' \<Longrightarrow> rs_rules rs' = rs_rules rs"
proof (induction ds arbitrary: rs)
  case Nil
  then show ?case by simp
next
  case (Cons d ds)
  from Cons.prems obtain rs1 where
    1: "day_step env sd syms rs d = Inr rs1" and 2: "simulate_days env sd syms rs1 ds = Inr rs'"
    by (auto split: sum.splits)
  from day_step_rules [OF 1] Cons.IH [OF 2] show ?case by simp
qed

lemma run_rules:
  assumes "run self env rules days = Inr (res, rules')"
  shows "rules' = rules"
proof -
  from run_Inr_D [OF assms] obtain rs where
    sim: "simulate_days env (now_start env - of_int days) (remdups (map symbol rules))
                (initial_run_state self env rules) [0..<nat days] = Inr rs"
    and r: "rules' = rs_rules rs"
    by blast
  from simulate_days_rules [OF sim] r show ?thesis
    by (simp add: initial_run_state_def)
qed

lemma rule_triggers_iff:
  "rule_triggers r cp \<longleftrightarrow> price_condition_holds r cp"
  by (cases "condition r") (simp_all add: rule_triggers_def price_condition_holds_def)

lemma fire_rule_triggered_flag:
  "fire_rule d st (r\<lparr>triggered := b\<rparr>) cp =
     map_sum id (map_prod id (\<lambda>r'. r'\<lparr>triggered := b\<rparr>)) (fire_rule d st r cp)"
  by (simp add: fire_rule_def buy_fill_def sell_fill_def Let_def
      split: RuleAction.splits sum.splits option.splits prod.splits)

lemma rule_step_triggered_flag:
  "rule_step d pr st (r\<lparr>triggered := b\<rparr>) =
     map_sum id (map_prod id (\<lambda>r'. r'\<lparr>triggered := b\<rparr>)) (rule_step d pr st r)"
  by (simp add: rule_step_def rule_triggers_def fire_rule_triggered_flag split: option.splits)

lemma apply_fills_append:
  "apply_fills st (xs @ ys) =
     (case apply_fills st xs of Inl e \<Rightarrow> Inl e | Inr st' \<Rightarrow> apply_fills st' ys)"
  by (induction st xs rule: apply_fills.induct) (auto split: option.splits sum.splits)

lemma rule_step_fires:
  "rule_step d pr st r = Inr (st1, r1) \<Longrightarrow>
   (if fires (d, pr, r)
    then (\<exists>p. pr (symbol r) = Some p \<and> fire_rule d st r p = Inr (st1, r1))
    else st1 = st)"
  by (auto simp: rule_step_def fires_def rule_triggers_iff split: if_splits option.splits)

lemma check_rules_fills:
  "check_rules d pr st rules = Inr (st', rules') \<Longrightarrow>
   apply_fills st (filter fires (map (\<lambda>r. (d, pr, r)) rules)) = Inr st'"
proof (induction rules arbitrary: st st' rules')
  case Nil
  then show ?case by simp
next
  case (Cons r rs)
  from Cons.prems obtain st1 r1 rs2 where
    1: "rule_step d pr st r = Inr (st1, r1)" and
    2: "check_rules d pr st1 rs = Inr (st', rs2)"
    by (auto split: sum.splits prod.splits)
  note IH = Cons.IH [OF 2]
  show ?case
  proof (cases "fires (d, pr, r)")
    case True
    with rule_step_fires [OF 1] obtain p where
      "pr (symbol r) = Some p" "fire_rule d st r p = Inr (st1, r1)"
      by auto
    with True IH show ?thesis by simp
  next
    case False
    with rule_step_fires [OF 1] have "st1 = st" by simp
    with False IH show ?thesis by simp
  qed
qed

lemma day_step_D:
  "day_step env sd syms rs d = Inr rs1 \<Longrightarrow>
   \<exists>rules1. update_prices env d (rs_prices rs) syms = Inr (rs_prices rs1)
      \<and> check_rules (sd + of_nat d) (rs_prices rs1) (rs_sim rs) (rs_rules rs)
          = Inr (rs_sim rs1, rules1)"
  by (auto simp: day_step_def timedelta_def datetime_add_def Let_def
      split: sum.splits prod.splits if_splits)

lemma rule_visits_Cons:
  "rule_visits sd rules (d # ds) (p # ps) =
     map (\<lambda>r. (sd + of_nat d, p, r)) rules @ rule_visits sd rules ds ps"
  by (simp add: rule_visits_def)

lemma simulate_days_fills:
  "simulate_days env sd syms rs ds = Inr rs' \<Longrightarrow>
   \<exists>ps. day_prices env syms (rs_prices rs) ds = Inr ps
      \<and> apply_fills (rs_sim rs) (filter fires (rule_visits sd (rs_rules rs) ds ps))
          = Inr (rs_sim rs')"
proof (induction ds arbitrary: rs)
  case Nil
  then show ?case by (simp add: rule_visits_def)
next
  case (Cons d ds)
  from Cons.prems obtain rs1 where
    1: "day_step env sd syms rs d = Inr rs1" and 2: "simulate_days env sd syms rs1 ds = Inr rs'"
    by (auto split: sum.splits)
  from day_step_D [OF 1] obtain rules1 where
    up: "update_prices env d (rs_prices rs) syms = Inr (rs_prices rs1)" and
    cr: "check_rules (sd + of_nat d) (rs_prices rs1) (rs_sim rs) (rs_rules rs)
          = Inr (rs_sim rs1, rules1)"
    by blast
  have rr: "rs_rules rs1 = rs_rules rs"
    using 1 by (rule day_step_rules)
  from Cons.IH [OF 2] obtain ps where
    dp: "day_prices env syms (rs_prices rs1) ds = Inr ps" and
    af: "apply_fills (rs_sim rs1) (filter fires (rule_visits sd (rs_rules rs) ds ps))
          = Inr (rs_sim rs')"
    unfolding rr by blast
  from up dp have "day_prices env syms (rs_prices rs) (d # ds) = Inr (rs_prices rs1 # ps)"
    by simp
  moreover have "apply_fills (rs_sim rs)
      (filter fires (rule_visits sd (rs_rules rs) (d # ds) (rs_prices rs1 # ps)))
      = Inr (rs_sim rs')"
    using check_rules_fills [OF cr] af
    by (simp add: rule_visits_Cons apply_fills_append)
  ultimately show ?case by blast
qed

lemma run_spec_locals:
  assumes "run self env rules days = Inr (res, rules')"
  shows "\<exists>st. spec_locals self env rules days = Inr st \<and> trades res = st_trades st"
proof -
  from run_Inr_D [OF assms] obtain rs where
    sim: "simulate_days env (now_start env - of_int days) (remdups (map symbol rules))
                (initial_run_state self env rules) [0..<nat days] = Inr rs"
    and fm: "final_metrics self env (now_start env - of_int days) (now_end env) rs = Inr res"
    by blast
  from simulate_days_fills [OF sim] obtain ps where
    "day_prices env (remdups (map symbol rules)) (init_prices env Map.empty rules)
       [0..<nat days] = Inr ps"
    "apply_fills \<lparr>st_cash = initial_capital self, st_positions = [], st_trades = []\<rparr>
       (filter fires (rule_visits (now_start env - of_int days) rules [0..<nat days] ps))
       = Inr (rs_sim rs)"
    by (auto simp: initial_run_state_def)
  then have "spec_locals self env rules days = Inr (rs_sim rs)"
    by (simp add: spec_locals_def)
  moreover from final_metrics_Inr_D [OF fm] have "trades res = st_trades (rs_sim rs)"
    by simp
  ultimately show ?thesis by blast
qed

lemma example_run_disabled:
  "run \<lparr>initial_capital = 100000\<rparr> (example_env (- 1 / 10))
     [example_disabled_rule, example_buy_rule] 3 =
     Inr (example_result_down, [example_disabled_rule, example_buy_rule])"
  by (simp add: run_defs example_disabled_rule_def example_result_down_def upt_3 dec_ops
      ctx_round_values ctx_round_0 Let_def cong: weak_congs)

text \<open>
  Claim C5. A backtest run never changes the rules passed to it: they come back as they
  went in, and on every simulated day the rule loop sees them unchanged. During the run
  every rule is visited on every simulated day, in the order of the days and of the rules,
  and the block that trades is executed at exactly the visits where the rule is enabled and
  its price condition holds at the day's price: the trades of the result are the trades
  that executing the block at these visits, and at no others, leaves. Whether a rule fires
  does not depend on the locals at that point (so a rule that has fired on an earlier day
  fires again) nor on its \<open>triggered\<close> flag; only a rule that is not enabled is skipped.
\<close>

theorem backtest_rules_untouched:
  "(run self env rules days = Inr (res, rules') \<longrightarrow>
      rules' = rules
      \<and> (\<exists>st. spec_locals self env rules days = Inr st \<and> trades res = st_trades st))
   \<and> (simulate_days env sd syms rs ds = Inr rs' \<longrightarrow>
        rs_rules rs' = rs_rules rs
        \<and> (\<exists>ps. day_prices env syms (rs_prices rs) ds = Inr ps
             \<and> apply_fills (rs_sim rs) (filter fires (rule_visits sd (rs_rules rs) ds ps))
                 = Inr (rs_sim rs')))
   \<and> (enabled r \<and> prices (symbol r) = Some cp \<and> price_condition_holds r cp \<longrightarrow>
        rule_step d prices st r = fire_rule d st r cp)
   \<and> (enabled r \<and> prices (symbol r) = Some cp \<and> \<not> price_condition_holds r cp \<longrightarrow>
        rule_step d prices st r = Inr (st, r))
   \<and> (\<not> enabled r \<longrightarrow> rule_step d prices st r = Inr (st, r))
   \<and> rule_step d prices st (r\<lparr>triggered := b\<rparr>) =
        map_sum id (map_prod id (\<lambda>r'. r'\<lparr>triggered := b\<rparr>)) (rule_step d prices st r)"
proof (intro conjI impI)
  assume "run self env rules days = Inr (res, rules')"
  then show "rules' = rules" by (rule run_rules)
next
  assume "run self env rules days = Inr (res, rules')"
  then show "\<exists>st. spec_locals self env rules days = Inr st \<and> trades res = st_trades st"
    by (rule run_spec_locals)
next
  assume "simulate_days env sd syms rs ds = Inr rs'"
  then show "rs_rules rs' = rs_rules rs" by (rule simulate_days_rules)
next
  assume "simulate_days env sd syms rs ds = Inr rs'"
  then show "\<exists>ps. day_prices env syms (rs_prices rs) ds = Inr ps
             \<and> apply_fills (rs_sim rs) (filter fires (rule_visits sd (rs_rules rs) ds ps))
                 = Inr (rs_sim rs')"
    by (rule simulate_days_fills)
next
  assume "enabled r \<and> prices (symbol r) = Some cp \<and> price_condition_holds r cp"
  then show "rule_step d prices st r = fire_rule d st r cp"
    by (simp add: rule_step_def rule_triggers_iff)
next
  assume "enabled r \<and> prices (symbol r) = Some cp \<and> \<not> price_condition_holds r cp"
  then show "rule_step d prices st r = Inr (st, r)"
    by (simp add: rule_step_def rule_triggers_iff)
next
  assume "\<not> enabled r"
  then show "rule_step d prices st r = Inr (st, r)"
    by (simp add: rule_step_def)
next
  show "rule_step d prices st (r\<lparr>triggered := b\<rparr>) =
        map_sum id (map_prod id (\<lambda>r'. r'\<lparr>triggered := b\<rparr>)) (rule_step d prices st r)"
    by (rule rule_step_triggered_flag)
qed

theorem backtest_rules_untouched_witness:
  "run \<lparr>initial_capital = 100000\<rparr> (example_env (- 1 / 10))
     [example_disabled_rule, example_buy_rule] 3 =
     Inr (example_result_down, [example_disabled_rule, example_buy_rule])
   \<and> (\<exists>st. spec_locals \<lparr>initial_capital = 100000\<rparr> (example_env (- 1 / 10))
              [example_disabled_rule, example_buy_rule] 3 = Inr st
            \<and> trades example_result_down = st_trades st)
   \<and> triggered example_buy_rule
   \<and> map timestamp (trades example_result_down) = [27, 28, 29]
   \<and> map rule_id (trades example_result_down) = [''r1'', ''r1'', ''r1'']
   \<and> rule_step 28 [''AAPL'' \<mapsto> 90]
        \<lparr>st_cash = 99000, st_positions = [(''AAPL'', 10, 100)], st_trades = []\<rparr> example_buy_rule
      = fire_rule 28
        \<lparr>st_cash = 99000, st_positions = [(''AAPL'', 10, 100)], st_trades = []\<rparr> example_buy_rule 90"
proof -
  note inst = backtest_rules_untouched
    [where self = "\<lparr>initial_capital = 100000\<rparr>" and env = "example_env (- 1 / 10)"
       and rules = "[example_disabled_rule, example_buy_rule]" and days = 3
       and res = example_result_down
       and rules' = "[example_disabled_rule, example_buy_rule]" and r = example_buy_rule
       and prices = "[''AAPL'' \<mapsto> 90]" and cp = 90 and d = 28
       and st = "\<lparr>st_cash = 99000, st_positions = [(''AAPL'', 10, 100)], st_trades = []\<rparr>"]
  have pre: "enabled example_buy_rule \<and> [''AAPL'' \<mapsto> (90::rat)] (symbol example_buy_rule) = Some 90
        \<and> price_condition_holds example_buy_rule 90"
    by (simp add: example_buy_rule_def price_condition_holds_def dec_val_def pow10_def)
  from inst pre have "rule_step 28 [''AAPL'' \<mapsto> 90]
        \<lparr>st_cash = 99000, st_positions = [(''AAPL'', 10, 100)], st_trades = []\<rparr> example_buy_rule
      = fire_rule 28
        \<lparr>st_cash = 99000, st_positions = [(''AAPL'', 10, 100)], st_trades = []\<rparr> example_buy_rule 90"
    by blast
  moreover from inst example_run_disabled
  have "\<exists>st. spec_locals \<lparr>initial_capital = 100000\<rparr> (example_env (- 1 / 10))
              [example_disabled_rule, example_buy_rule] 3 = Inr st
            \<and> trades example_result_down = st_trades st"
    by blast
  moreover have "triggered example_buy_rule"
    by (simp add: example_buy_rule_def)
  moreover have "map timestamp (trades example_result_down) = [27, 28, 29]"
    by (simp add: example_result_down_def)
  moreover have "map rule_id (trades example_result_down) = [''r1'', ''r1'', ''r1'']"
    by (simp add: example_result_down_def)
  ultimately show ?thesis using example_run_disabled by blast
qed

section \<open>Properties of serialisation\<close>

lemma digit_char_digit: "d < 10 \<Longrightarrow> is_digit (digit_char d)"
  by (simp add: is_digit_def digit_char_def)

lemma digit_val_digit_char: "d < 10 \<Longrightarrow> digit_val (digit_char d) = d"
  by (simp add: digit_val_def digit_char_def)

lemma str_nat_digits: "list_all is_digit (str_nat n)"
proof (induction n rule: str_nat.induct)
  case (1 n)
  show ?case
  proof (cases "n < 10")
    case True
    then show ?thesis by (subst str_nat.simps) (simp add: digit_char_digit)
  next
    case False
    with 1 show ?thesis by (subst str_nat.simps) (simp add: digit_char_digit)
  qed
qed

lemma str_nat_nonempty: "str_nat n \<noteq> []"
  by (subst str_nat.simps) simp

lemma int_of_digits_snoc:
  "int_of_digits (ds @ [c]) = 10 * int_of_digits ds + digit_val c"
  by (simp add: int_of_digits_def)

lemma int_of_digits_str_nat: "int_of_digits (str_nat n) = n"
proof (induction n rule: str_nat.induct)
  case (1 n)
  show ?case
  proof (cases "n < 10")
    case True
    then show ?thesis
      by (subst str_nat.simps) (simp add: int_of_digits_def digit_val_digit_char)
  next
    case False
    with 1 have "int_of_digits (str_nat (n div 10)) = n div 10" by simp
    with False show ?thesis
      by (subst str_nat.simps) (simp add: int_of_digits_snoc digit_val_digit_char)
  qed
qed

lemma int_of_digits_zeros:
  "int_of_digits (replicate k (CHR ''0'') @ ds) = int_of_digits ds"
proof -
  have "foldl (\<lambda>acc c. 10 * acc + digit_val c) 0 (replicate k (CHR ''0'')) = 0"
    by (induction k) (simp_all add: digit_val_def)
  then show ?thesis by (simp add: int_of_digits_def)
qed

lemma int_of_digits_zero_Cons:
  "int_of_digits (CHR ''0'' # ds) = int_of_digits ds"
  using int_of_digits_zeros [of 1 ds] by simp

lemma not_digit [simp]:
  "\<not> is_digit (CHR ''.'')" "\<not> is_digit (CHR ''E'')" "\<not> is_digit (CHR ''-'')"
  "\<not> is_digit (CHR ''+'')"
  by (simp_all add: is_digit_def)

lemma digit_not_sign: "is_digit c \<Longrightarrow> c \<noteq> CHR ''-'' \<and> c \<noteq> CHR ''+'' \<and> c \<noteq> CHR ''.''"
  by (auto simp: is_digit_def)

lemma digit_plain: "is_digit c \<Longrightarrow> \<not> is_space c \<and> c \<noteq> CHR ''_''"
  by (auto simp: is_digit_def is_space_def Let_def)

lemma takeWhile_digits:
  "list_all is_digit ds \<Longrightarrow> \<not> is_digit c \<Longrightarrow>
     takeWhile is_digit (ds @ c # rest) = ds \<and> dropWhile is_digit (ds @ c # rest) = c # rest"
  by (induction ds) simp_all

lemma takeWhile_all_digits:
  "list_all is_digit ds \<Longrightarrow> takeWhile is_digit ds = ds \<and> dropWhile is_digit ds = []"
  by (induction ds) simp_all

lemma split_sign_minus: "split_sign (CHR ''-'' # s) = (True, s)"
  by (simp add: split_sign_def)

lemma split_sign_plus: "split_sign (CHR ''+'' # s) = (False, s)"
  by (simp add: split_sign_def)

lemma split_sign_digit: "is_digit c \<Longrightarrow> split_sign (c # s) = (False, c # s)"
  by (auto simp: split_sign_def dest: digit_not_sign)

lemma parse_exponent_fmt: "parse_exponent (fmt_plus_d e) = Some e"
  by (auto simp: parse_exponent_def fmt_plus_d_def split_sign_minus split_sign_plus
      str_nat_nonempty str_nat_digits int_of_digits_str_nat)

lemma dec_char_plain: "dec_char c \<Longrightarrow> \<not> is_space c \<and> c \<noteq> CHR ''_''"
  by (auto simp: dec_char_def is_space_def Let_def dest: digit_plain)

lemma strip_plain: "list_all (\<lambda>c. \<not> is_space c) s \<Longrightarrow> strip s = s"
proof -
  assume a: "list_all (\<lambda>c. \<not> is_space c) s"
  then have 1: "dropWhile is_space s = s"
    by (cases s) simp_all
  from a have "list_all (\<lambda>c. \<not> is_space c) (rev s)" by (simp add: list_all_iff)
  then have 2: "dropWhile is_space (rev s) = rev s"
    by (cases "rev s") simp_all
  show ?thesis by (simp add: strip_def 1 2)
qed

lemma clean_dec_chars:
  assumes "list_all dec_char s"
  shows "remove_underscores (strip s) = s"
proof -
  from assms have "list_all (\<lambda>c. \<not> is_space c) s" and "list_all (\<lambda>c. c \<noteq> CHR ''_'') s"
    by (auto simp: list_all_iff dest: dec_char_plain)
  then show ?thesis
    by (simp add: strip_plain remove_underscores_def list_all_iff)
qed

lemma digits_dec_chars: "list_all is_digit ds \<Longrightarrow> list_all dec_char ds"
  by (simp add: list_all_iff dec_char_def)

lemma fmt_plus_d_dec_chars: "list_all dec_char (fmt_plus_d e)"
  by (simp add: fmt_plus_d_def dec_char_def digits_dec_chars [OF str_nat_digits])

lemma lower_E: "lower_char (CHR ''E'') = CHR ''e''"
  by code_simp

lemma hd_not_dot: "list_all is_digit ds \<Longrightarrow> ds \<noteq> [] \<Longrightarrow> hd ds \<noteq> CHR ''.''"
  by (cases ds) (auto dest: digit_not_sign)

lemma parse_form:
  assumes ip: "list_all is_digit ip" "ip \<noteq> []"
    and fp: "list_all is_digit fp"
    and hf: "\<not> hf \<Longrightarrow> fp = []"
  shows "Decimal_of_str
           ((if neg then [CHR ''-''] else []) @ ip @ (if hf then CHR ''.'' # fp else []) @
            (case ex of None \<Rightarrow> [] | Some e \<Rightarrow> CHR ''E'' # fmt_plus_d e))
         = Inr (Decimal neg (int_of_digits (ip @ fp))
                  ((case ex of None \<Rightarrow> 0 | Some e \<Rightarrow> e) - int (length fp)))"
proof -
  let ?exs = "case ex of None \<Rightarrow> [] | Some e \<Rightarrow> CHR ''E'' # fmt_plus_d e"
  let ?fr = "if hf then CHR ''.'' # fp else []"
  let ?body = "ip @ ?fr @ ?exs"
  let ?whole = "(if neg then [CHR ''-''] else []) @ ?body"
  have exs_chars: "list_all dec_char ?exs"
    by (cases ex) (simp_all add: dec_char_def fmt_plus_d_dec_chars)
  have fr_chars: "list_all dec_char ?fr"
    using fp by (simp add: dec_char_def digits_dec_chars)
  have "list_all dec_char ?whole"
    using ip(1) exs_chars fr_chars by (simp add: digits_dec_chars dec_char_def)
  then have clean: "remove_underscores (strip ?whole) = ?whole"
    by (rule clean_dec_chars)
  from ip obtain c ip' where ipc: "ip = c # ip'" and c: "is_digit c"
    by (cases ip) auto
  have sign: "split_sign ?whole = (neg, ?body)"
    by (cases neg) (simp_all add: split_sign_minus ipc split_sign_digit [OF c])
  have exs_parse:
    "(case ?exs of [] \<Rightarrow> Some 0
      | c # rest \<Rightarrow> if lower_char c = CHR ''e'' then parse_exponent rest else None)
     = Some (case ex of None \<Rightarrow> 0 | Some e \<Rightarrow> e)"
    by (cases ex) (simp_all add: lower_E parse_exponent_fmt)
  have exs_hd: "?exs \<noteq> [] \<Longrightarrow> \<not> is_digit (hd ?exs) \<and> hd ?exs \<noteq> CHR ''.''"
    by (cases ex) simp_all
  have tw_fp: "takeWhile is_digit (fp @ ?exs) = fp \<and> dropWhile is_digit (fp @ ?exs) = ?exs"
  proof (cases ex)
    case None
    then show ?thesis using takeWhile_all_digits [OF fp] by simp
  next
    case (Some e)
    then show ?thesis using takeWhile_digits [OF fp, of "CHR ''E''" "fmt_plus_d e"] by simp
  qed
  show ?thesis
  proof (cases hf)
    case True
    have tw: "takeWhile is_digit (ip @ CHR ''.'' # fp @ ?exs) = ip
        \<and> dropWhile is_digit (ip @ CHR ''.'' # fp @ ?exs) = CHR ''.'' # fp @ ?exs"
      using takeWhile_digits [OF ip(1), of "CHR ''.''" "fp @ ?exs"] by simp
    show ?thesis
      unfolding Decimal_of_str_def clean sign
      using True ip(2) by (simp add: tw tw_fp exs_parse Let_def)
  next
    case False
    with hf have fpe: "fp = []" by simp
    show ?thesis
    proof (cases ex)
      case None
      have tw0: "takeWhile is_digit ip = ip \<and> dropWhile is_digit ip = []"
        by (rule takeWhile_all_digits [OF ip(1)])
      show ?thesis
        unfolding Decimal_of_str_def clean sign
        using False None ip(2) by (simp add: tw0 fpe Let_def)
    next
      case (Some e)
      have tw: "takeWhile is_digit (ip @ CHR ''E'' # fmt_plus_d e) = ip
          \<and> dropWhile is_digit (ip @ CHR ''E'' # fmt_plus_d e) = CHR ''E'' # fmt_plus_d e"
        using takeWhile_digits [OF ip(1), of "CHR ''E''" "fmt_plus_d e"] by simp
      show ?thesis
        unfolding Decimal_of_str_def clean sign
        using False Some ip(2) by (simp add: tw fpe lower_E parse_exponent_fmt Let_def)
    qed
  qed
qed

lemma zeros_digits: "list_all is_digit (replicate k (CHR ''0''))"
  by (simp add: list_all_iff is_digit_def)

lemma take_digits: "list_all is_digit ds \<Longrightarrow> list_all is_digit (take k ds)"
  by (auto simp: list_all_iff dest: in_set_takeD)

lemma drop_digits: "list_all is_digit ds \<Longrightarrow> list_all is_digit (drop k ds)"
  by (auto simp: list_all_iff dest: in_set_dropD)

lemma Decimal_roundtrip: "Decimal_of_str (Decimal_str d) = Inr d"
proof (cases d)
  case (Decimal sg c e)
  let ?s = "str_nat c"
  let ?n = "int (length ?s)"
  let ?ld = "e + ?n"
  have ne: "?s \<noteq> []" by (rule str_nat_nonempty)
  then have n1: "1 \<le> ?n" by (cases ?s) simp_all
  have ds: "list_all is_digit ?s" by (rule str_nat_digits)
  have val: "int_of_digits ?s = c" by (rule int_of_digits_str_nat)
  consider (A) "e \<le> 0" "?ld > - 6" "?ld \<le> 0"
    | (B1) "e \<le> 0" "?ld > 0" "?ld \<ge> ?n"
    | (B2) "e \<le> 0" "?ld > 0" "?ld < ?n"
    | (C1) "\<not> (e \<le> 0 \<and> ?ld > - 6)" "?n = 1"
    | (C2) "\<not> (e \<le> 0 \<and> ?ld > - 6)" "?n > 1"
    using n1 by linarith
  then show ?thesis
  proof cases
    case A
    let ?fp = "replicate (nat (- ?ld)) (CHR ''0'') @ ?s"
    have fp: "list_all is_digit ?fp" using ds by (simp add: zeros_digits)
    have ip: "list_all is_digit [CHR ''0'']" "[CHR ''0''] \<noteq> []"
      by (simp_all add: is_digit_def)
    have str: "Decimal_str d = (if sg then [CHR ''-''] else []) @ [CHR ''0''] @
        (if True then CHR ''.'' # ?fp else []) @ (case None of None \<Rightarrow> [] | Some e \<Rightarrow> CHR ''E'' # fmt_plus_d e)"
      using A by (simp add: Decimal Decimal_str_def Let_def)
    have "Decimal_of_str (Decimal_str d) =
        Inr (Decimal sg (int_of_digits ([CHR ''0''] @ ?fp))
               ((case None of None \<Rightarrow> 0 | Some e \<Rightarrow> e) - int (length ?fp)))"
      unfolding str by (rule parse_form [OF ip fp]) simp
    also have "int_of_digits ([CHR ''0''] @ ?fp) = c"
      by (simp add: int_of_digits_zero_Cons int_of_digits_zeros val)
    also have "(case None of None \<Rightarrow> 0 | Some e \<Rightarrow> e) - int (length ?fp) = e"
      using A by simp
    finally show ?thesis by (simp add: Decimal)
  next
    case B1
    with n1 have e0: "e = 0" by linarith
    have str: "Decimal_str d = (if sg then [CHR ''-''] else []) @ ?s @
        (if False then CHR ''.'' # [] else []) @ (case None of None \<Rightarrow> [] | Some e \<Rightarrow> CHR ''E'' # fmt_plus_d e)"
      using B1 e0 by (simp add: Decimal Decimal_str_def Let_def)
    have "Decimal_of_str (Decimal_str d) =
        Inr (Decimal sg (int_of_digits (?s @ []))
               ((case None of None \<Rightarrow> 0 | Some e \<Rightarrow> e) - int (length ([] :: string))))"
      unfolding str by (rule parse_form [OF ds ne]) simp_all
    then show ?thesis by (simp add: val e0 Decimal)
  next
    case B2
    let ?ip = "take (nat ?ld) ?s"
    let ?fp = "drop (nat ?ld) ?s"
    have ip: "list_all is_digit ?ip" "?ip \<noteq> []"
      using ds ne B2 by (simp_all add: take_digits)
    have fp: "list_all is_digit ?fp" using ds by (rule drop_digits)
    have str: "Decimal_str d = (if sg then [CHR ''-''] else []) @ ?ip @
        (if True then CHR ''.'' # ?fp else []) @ (case None of None \<Rightarrow> [] | Some e \<Rightarrow> CHR ''E'' # fmt_plus_d e)"
      using B2 by (simp add: Decimal Decimal_str_def Let_def)
    have "Decimal_of_str (Decimal_str d) =
        Inr (Decimal sg (int_of_digits (?ip @ ?fp))
               ((case None of None \<Rightarrow> 0 | Some e \<Rightarrow> e) - int (length ?fp)))"
      unfolding str by (rule parse_form [OF ip fp]) simp
    also have "(case None of None \<Rightarrow> 0 | Some e \<Rightarrow> e) - int (length ?fp) = e"
      using B2 by simp
    finally show ?thesis by (simp add: val Decimal)
  next
    case C1
    then have ld1: "?ld \<noteq> 1" by linarith
    have str: "Decimal_str d = (if sg then [CHR ''-''] else []) @ ?s @
        (if False then CHR ''.'' # [] else []) @
        (case Some (?ld - 1) of None \<Rightarrow> [] | Some e \<Rightarrow> CHR ''E'' # fmt_plus_d e)"
      using C1 ld1 by (simp add: Decimal Decimal_str_def Let_def)
    have "Decimal_of_str (Decimal_str d) =
        Inr (Decimal sg (int_of_digits (?s @ []))
               ((case Some (?ld - 1) of None \<Rightarrow> 0 | Some e \<Rightarrow> e) - int (length ([] :: string))))"
      unfolding str by (rule parse_form [OF ds ne]) simp_all
    then show ?thesis using C1 by (simp add: val Decimal)
  next
    case C2
    then have ld1: "?ld \<noteq> 1" by linarith
    from C2 have cond: "(e \<le> 0 \<and> - 6 < ?ld) = False" by simp
    from C2 have n2: "\<not> 1 \<ge> ?n" by simp
    let ?ip = "take (nat 1) ?s"
    let ?fp = "drop (nat 1) ?s"
    have ip: "list_all is_digit ?ip" "?ip \<noteq> []"
      using ds ne by (simp_all add: take_digits)
    have fp: "list_all is_digit ?fp" using ds by (rule drop_digits)
    have str: "Decimal_str d = (if sg then [CHR ''-''] else []) @ ?ip @
        (if True then CHR ''.'' # ?fp else []) @
        (case Some (?ld - 1) of None \<Rightarrow> [] | Some e \<Rightarrow> CHR ''E'' # fmt_plus_d e)"
      using ld1 n2 by (simp add: Decimal Decimal_str_def Let_def cond)
    have "Decimal_of_str (Decimal_str d) =
        Inr (Decimal sg (int_of_digits (?ip @ ?fp))
               ((case Some (?ld - 1) of None \<Rightarrow> 0 | Some e \<Rightarrow> e) - int (length ?fp)))"
      unfolding str by (rule parse_form [OF ip fp]) simp
    also have "(case Some (?ld - 1) of None \<Rightarrow> 0 | Some e \<Rightarrow> e) - int (length ?fp) = e"
      using C2 by simp
    finally show ?thesis by (simp add: val Decimal)
  qed
qed

lemma upper_char_idem: "upper_char (upper_char c) = upper_char c"
proof (cases "97 \<le> (of_char c :: nat) \<and> (of_char c :: nat) \<le> 122")
  case True
  then have uc: "upper_char c = char_of (of_char c - 32 :: nat)"
    by (simp add: upper_char_def Let_def)
  from True have "(of_char c - 32 :: nat) < 256"
    by arith
  then have "(of_char c - 32 :: nat) mod 256 = of_char c - 32"
    by (rule mod_less)
  moreover from True have "(of_char c - 32 :: nat) < 97"
    by arith
  ultimately have "\<not> 97 \<le> (of_char (char_of (of_char c - 32 :: nat)) :: nat)"
    by simp
  then have "upper_char (char_of (of_char c - 32 :: nat)) = char_of (of_char c - 32 :: nat)"
    unfolding upper_char_def Let_def by (simp only: simp_thms if_False)
  then show ?thesis by (simp only: uc)
next
  case False
  then have "upper_char c = c"
    unfolding upper_char_def Let_def by (simp only: if_False)
  then show ?thesis by simp
qed

lemma upper_idem: "upper (upper s) = upper s"
  by (simp add: upper_def upper_char_idem)

lemma Rule_init_valid:
  "Rule_init sy ac co tp qty ident en tr de = Inr r \<Longrightarrow> valid_rule r"
  by (auto simp: Rule_init_def valid_rule_def upper_idem split: if_splits)

lemma from_dict_to_dict:
  assumes "valid_rule r"
  shows "from_dict fresh (to_dict r) = Inr r"
proof -
  have a: "RuleAction_of (VStr (action_value (action r))) = Inr (action r)"
    by (cases "action r") (simp_all add: RuleAction_of_def action_value_def)
  have c: "RuleCondition_of (VStr (condition_value (condition r))) = Inr (condition r)"
    by (cases "condition r") (simp_all add: RuleCondition_of_def condition_value_def)
  have d: "(case (case description r of None \<Rightarrow> VNone | Some s \<Rightarrow> VStr s) of
              VNone \<Rightarrow> Inr None | VStr s \<Rightarrow> Inr (Some s)
            | _ \<Rightarrow> Inl (IllTyped ''description'')) = (Inr (description r) :: error + string option)"
    by (cases "description r") simp_all
  have i: "Rule_init (symbol r) (action r) (condition r) (target_price r) (quantity r) (id' r)
             (enabled r) (triggered r) (description r) = Inr r"
    using assms by (simp add: Rule_init_def valid_rule_def)
  show ?thesis
    by (simp add: from_dict_def to_dict_def get_bool_def str_of_def int_of_def
        Decimal_roundtrip a c d i)
qed


text \<open>
  Claim C8. Serialising a valid rule with \<open>to_dict\<close> and reading the record back with
  \<open>from_dict\<close> gives a rule equal to the original in every field: id, symbol, action,
  condition, target price, quantity, enabled, triggered and description. A rule is valid
  when it satisfies what the constructor establishes, so this holds for every rule the
  constructor returns. The target price travels as text; \<open>Decimal(str(d))\<close> is \<open>d\<close>, with
  the same sign, coefficient and exponent.
\<close>

theorem rule_round_trip:
  "(valid_rule r \<longrightarrow> from_dict fresh (to_dict r) = Inr r)
   \<and> (Rule_init sy ac co tp qty ident en tr de = Inr r' \<longrightarrow>
        from_dict fresh (to_dict r') = Inr r')
   \<and> Decimal_of_str (Decimal_str d) = Inr d"
proof (intro conjI impI)
  assume "valid_rule r"
  then show "from_dict fresh (to_dict r) = Inr r"
    by (rule from_dict_to_dict)
next
  assume "Rule_init sy ac co tp qty ident en tr de = Inr r'"
  then have "valid_rule r'"
    by (rule Rule_init_valid)
  then show "from_dict fresh (to_dict r') = Inr r'"
    by (rule from_dict_to_dict)
next
  show "Decimal_of_str (Decimal_str d) = Inr d"
    by (rule Decimal_roundtrip)
qed

lemma upper_AAPL: "upper ''aapl'' = ''AAPL'' \<and> upper ''AAPL'' = ''AAPL''"
  by code_simp

theorem rule_round_trip_witness:
  "from_dict ''fresh''
     (to_dict \<lparr>symbol = ''AAPL'', action = BUY, condition = BELOW,
                target_price = Decimal False 17000 (- 2), quantity = 10, id' = ''test123'',
                enabled = True, triggered = False, description = Some ''dip''\<rparr>)
   = Inr \<lparr>symbol = ''AAPL'', action = BUY, condition = BELOW,
          target_price = Decimal False 17000 (- 2), quantity = 10, id' = ''test123'',
          enabled = True, triggered = False, description = Some ''dip''\<rparr>
   \<and> Rule_init ''aapl'' BUY BELOW (Decimal False 17000 (- 2)) 10 ''test123'' True False
        (Some ''dip'')
   = Inr \<lparr>symbol = ''AAPL'', action = BUY, condition = BELOW,
          target_price = Decimal False 17000 (- 2), quantity = 10, id' = ''test123'',
          enabled = True, triggered = False, description = Some ''dip''\<rparr>"
proof -
  let ?r = "\<lparr>symbol = ''AAPL'', action = BUY, condition = BELOW,
          target_price = Decimal False 17000 (- 2), quantity = 10, id' = ''test123'',
          enabled = True, triggered = False, description = Some ''dip''\<rparr>"
  have init: "Rule_init ''aapl'' BUY BELOW (Decimal False 17000 (- 2)) 10 ''test123'' True False
        (Some ''dip'') = Inr ?r"
    by (simp add: Rule_init_def upper_AAPL dec_val_def pow10_def)
  note inst = rule_round_trip
    [where r = ?r and fresh = "''fresh''" and sy = "''aapl''" and ac = BUY and co = BELOW
       and tp = "Decimal False 17000 (- 2)" and qty = 10 and ident = "''test123''"
       and en = True and tr = False and de = "Some ''dip''" and r' = ?r]
  from inst init have rt: "from_dict ''fresh'' (to_dict ?r) = Inr ?r"
    by blast
  from rt init show ?thesis
    by (rule conjI)
qed

section \<open>Properties of the engine loop\<close>

lemma run_loop_head:
  "run_loop fuel self env now k = Some tr \<Longrightarrow>
   \<exists>es. tr = (if stop_requested env now then LoopExit now else CycleStart now) # es"
  by (cases fuel) (auto simp: Let_def split: if_splits)

lemma run_loop_trace:
  "run_loop fuel self env now k = Some tr \<Longrightarrow> events_ok env tr \<and> sleeps_complete env tr"
proof (induction fuel arbitrary: now k tr)
  case 0
  then show ?case by simp
next
  case (Suc fuel)
  let ?d = "cycle_duration env k"
  let ?s = "sleep_time self ?d"
  show ?case
  proof (cases "stop_requested env now")
    case True
    with Suc.prems have "tr = [LoopExit now]" by simp
    with True show ?thesis by simp
  next
    case ns: False
    show ?thesis
    proof (cases "?s > 0 \<and> \<not> stop_requested env (now + ?d)")
      case True
      with ns Suc.prems obtain es where
        es: "run_loop fuel self env (now + ?d + ?s) (Suc k) = Some es" and
        tr: "tr = CycleStart now # Sleep (now + ?d) ?s # es"
        by (auto simp: Let_def)
      from run_loop_head [OF es] obtain es' where
        hd: "es = (if stop_requested env (now + ?d + ?s) then LoopExit (now + ?d + ?s)
                   else CycleStart (now + ?d + ?s)) # es'" ..
      from Suc.IH [OF es] have ok: "events_ok env es" "sleeps_complete env es" by simp_all
      have nxt: "(case es of [] \<Rightarrow> False
              | e # rest \<Rightarrow> e = (if stop_requested env (now + ?d + ?s) then LoopExit (now + ?d + ?s)
                                else CycleStart (now + ?d + ?s)))"
        by (subst hd) simp
      have "events_ok env tr"
        using ns True ok by (simp add: tr)
      moreover have "sleeps_complete env tr"
        unfolding tr using nxt ok by (simp only: sleeps_complete.simps simp_thms)
      ultimately show ?thesis ..
    next
      case False
      with ns Suc.prems obtain es where
        es: "run_loop fuel self env (now + ?d) (Suc k) = Some es" and
        tr: "tr = CycleStart now # es"
        by (auto simp: Let_def)
      from Suc.IH [OF es] show ?thesis using ns by (simp add: tr)
    qed
  qed
qed

lemma run_loop_stop_before_cycle:
  "stop_requested env now \<Longrightarrow> run_loop (Suc fuel) self env now k = Some [LoopExit now]"
  by simp

lemma run_loop_stop_during_cycle:
  assumes "\<not> stop_requested env now"
    and "stop_requested env (now + cycle_duration env k)"
  shows "run_loop (Suc (Suc fuel)) self env now k =
           Some [CycleStart now, LoopExit (now + cycle_duration env k)]"
  using assms by (simp add: Let_def)

lemma run_loop_stop_during_sleep:
  assumes "\<not> stop_requested env now"
    and "\<not> stop_requested env (now + cycle_duration env k)"
    and "0 < sleep_time self (cycle_duration env k)"
    and "stop_requested env (now + cycle_duration env k + sleep_time self (cycle_duration env k))"
  shows "run_loop (Suc (Suc fuel)) self env now k =
           Some [CycleStart now,
                 Sleep (now + cycle_duration env k) (sleep_time self (cycle_duration env k)),
                 LoopExit (now + cycle_duration env k + sleep_time self (cycle_duration env k))]"
  using assms by (simp add: Let_def)

lemma example_loop_run:
  "run_loop 2 \<lparr>poll_interval = 60, dry_run = False\<rparr> example_loop_env 0 0 =
     Some [CycleStart 0, Sleep 0 60, LoopExit 60]"
proof -
  have "run_loop (Suc (Suc 0)) \<lparr>poll_interval = 60, dry_run = False\<rparr> example_loop_env 0 0 =
     Some [CycleStart 0, Sleep 0 60, LoopExit 60]"
    by (simp add: example_loop_env_def stop_requested_def sleep_time_def Let_def)
  then show ?thesis by (simp only: numeral_2_eq_2)
qed

text \<open>
  Claim C9, as stated, fails: a stop requested while the loop is inside its sleep does not
  cut the sleep short. With a poll interval of 60 seconds, cycles that take no time and a
  stop requested at second 10, the loop sleeps from second 0 to second 60 and exits at
  second 60, fifty seconds after the request.
\<close>

theorem stop_mid_sleep_counterexample:
  "run_loop 2 \<lparr>poll_interval = 60, dry_run = False\<rparr> example_loop_env 0 0 =
     Some [CycleStart 0, Sleep 0 60, LoopExit 60]
   \<and> stop_at example_loop_env = Some 10
   \<and> \<not> never_sleeps_past_stop example_loop_env [CycleStart 0, Sleep 0 60, LoopExit 60]"
proof -
  have "stop_at example_loop_env = Some 10"
    by (simp add: example_loop_env_def)
  moreover have "\<not> never_sleeps_past_stop example_loop_env [CycleStart 0, Sleep 0 60, LoopExit 60]"
    by (simp add: never_sleeps_past_stop_def example_loop_env_def)
  ultimately show ?thesis
    using example_loop_run by blast
qed

text \<open>
  Claim C9, amended. A stop requested while the loop is inside its sleep takes effect when
  the sleep is over: the sleep runs to its end and the loop then exits without starting a
  new cycle. The stop is tested before each new cycle begins, and the loop does not enter
  the sleep when a stop has already been requested before it. In every run, a cycle is
  started and a sleep entered only while no stop has been requested, and what follows a
  sleep is the exit if a stop has been requested by the end of the sleep, and the next
  cycle otherwise.
\<close>

theorem stop_takes_effect_after_sleep:
  "(run_loop fuel self env now k = Some tr \<longrightarrow> events_ok env tr \<and> sleeps_complete env tr)
   \<and> (stop_requested env now \<longrightarrow>
        run_loop (Suc fuel) self env now k = Some [LoopExit now])
   \<and> (\<not> stop_requested env now \<and> stop_requested env (now + cycle_duration env k) \<longrightarrow>
        run_loop (Suc (Suc fuel)) self env now k =
          Some [CycleStart now, LoopExit (now + cycle_duration env k)])
   \<and> (\<not> stop_requested env now \<and> \<not> stop_requested env (now + cycle_duration env k)
        \<and> 0 < sleep_time self (cycle_duration env k)
        \<and> stop_requested env
             (now + cycle_duration env k + sleep_time self (cycle_duration env k)) \<longrightarrow>
        run_loop (Suc (Suc fuel)) self env now k =
          Some [CycleStart now,
                Sleep (now + cycle_duration env k) (sleep_time self (cycle_duration env k)),
                LoopExit (now + cycle_duration env k + sleep_time self (cycle_duration env k))])"
  using run_loop_trace [of fuel self env now k tr]
    run_loop_stop_before_cycle [of env now fuel self k]
    run_loop_stop_during_cycle [of env now k fuel self]
    run_loop_stop_during_sleep [of env now k self fuel]
  by blast

theorem stop_takes_effect_after_sleep_witness:
  "events_ok example_loop_env [CycleStart 0, Sleep 0 60, LoopExit 60]
   \<and> sleeps_complete example_loop_env [CycleStart 0, Sleep 0 60, LoopExit 60]
   \<and> run_loop 1 \<lparr>poll_interval = 60, dry_run = False\<rparr> example_loop_env 10 0 = Some [LoopExit 10]
   \<and> run_loop 2 \<lparr>poll_interval = 60, dry_run = False\<rparr>
        \<lparr>stop_at = Some 10, cycle_duration = (\<lambda>k. 15)\<rparr> 0 0
      = Some [CycleStart 0, LoopExit 15]"
proof -
  let ?E = "\<lparr>poll_interval = 60, dry_run = False\<rparr>"
  from stop_takes_effect_after_sleep
         [of 2 ?E example_loop_env 0 0 "[CycleStart 0, Sleep 0 60, LoopExit 60]"]
       example_loop_run
  have a: "events_ok example_loop_env [CycleStart 0, Sleep 0 60, LoopExit 60]
     \<and> sleeps_complete example_loop_env [CycleStart 0, Sleep 0 60, LoopExit 60]"
    by blast
  have "stop_requested example_loop_env 10"
    by (simp add: stop_requested_def example_loop_env_def)
  with stop_takes_effect_after_sleep [of 0 ?E example_loop_env 10 0]
  have "run_loop (Suc 0) ?E example_loop_env 10 0 = Some [LoopExit 10]"
    by blast
  then have b: "run_loop 1 ?E example_loop_env 10 0 = Some [LoopExit 10]"
    by (simp only: One_nat_def)
  have "\<not> stop_requested \<lparr>stop_at = Some 10, cycle_duration = (\<lambda>k. 15)\<rparr> 0
      \<and> stop_requested \<lparr>stop_at = Some 10, cycle_duration = (\<lambda>k. 15)\<rparr>
            (0 + cycle_duration \<lparr>stop_at = Some 10, cycle_duration = (\<lambda>k. 15)\<rparr> 0)"
    by (simp add: stop_requested_def)
  with stop_takes_effect_after_sleep
         [of 0 ?E "\<lparr>stop_at = Some 10, cycle_duration = (\<lambda>k. 15)\<rparr>" 0 0]
  have "run_loop (Suc (Suc 0)) ?E \<lparr>stop_at = Some 10, cycle_duration = (\<lambda>k. 15)\<rparr> 0 0
      = Some [CycleStart 0, LoopExit 15]"
    by simp
  then have c: "run_loop 2 ?E \<lparr>stop_at = Some 10, cycle_duration = (\<lambda>k. 15)\<rparr> 0 0
      = Some [CycleStart 0, LoopExit 15]"
    by (simp only: numeral_2_eq_2)
  from a b c show ?thesis by blast
qed

end
